theory Spec2Isabelle
  imports Complex_Main "HOL-Library.Sublist"
begin

section \<open>JavaScript values\<close>

text \<open>
  The gateway and the REST API exchange JSON. A parsed JSON value is a \<open>json\<close>; a
  JavaScript value that may also be \<open>undefined\<close> is a \<open>json option\<close>, with \<open>None\<close>
  for \<open>undefined\<close>. An object is the list of its own properties, each key once.
  Numbers are the integers the protocol uses (operation codes, sequence numbers,
  intervals).
\<close>

datatype json =
    JNull
  | JBool bool
  | JNum int
  | JStr string
  | JArr "json list"
  | JObj "(string \<times> json) list"

type_synonym jsval = "json option"

datatype js_error = SyntaxError | TypeError

text \<open>
  Property access \<open>v.k\<close> for the property names the code reads (\<open>s\<close>, \<open>op\<close>, \<open>d\<close>,
  \<open>t\<close>, \<open>heartbeat_interval\<close>, \<open>session_id\<close>, \<open>message\<close>): a TypeError on
  \<open>undefined\<close> and \<open>null\<close>, the property of an object, \<open>undefined\<close> on every
  other value.
\<close>

fun get_prop :: "jsval \<Rightarrow> string \<Rightarrow> js_error + jsval" where
  "get_prop None k = Inl TypeError"
| "get_prop (Some JNull) k = Inl TypeError"
| "get_prop (Some (JObj kvs)) k = Inr (map_of kvs k)"
| "get_prop (Some v) k = Inr None"

text \<open>
  An object literal as \<open>JSON.stringify\<close> writes it: a property whose value is
  \<open>undefined\<close> is left out.
\<close>

fun js_object :: "(string \<times> jsval) list \<Rightarrow> (string \<times> json) list" where
  "js_object [] = []"
| "js_object ((k, None) # kvs) = js_object kvs"
| "js_object ((k, Some v) # kvs) = (k, v) # js_object kvs"

section \<open>The gateway connection: DiscordWebSocket\<close>

datatype ready_state = CONNECTING | OPEN | CLOSING | CLOSED

text \<open>
  A socket of the \<open>ws\<close> package, as far as the class uses it: its \<open>readyState\<close>, the
  frames handed to \<open>send\<close> (what \<open>JSON.stringify\<close> wrote), and the arguments of the
  calls of \<open>close\<close>.
\<close>

record socket =
  readyState :: ready_state
  outbox :: "json list"
  closeCalls :: "(int \<times> string) option list"

definition new_socket :: socket where
  "new_socket = \<lparr>readyState = CONNECTING, outbox = [], closeCalls = []\<rparr>"

text \<open>\<open>ws.close(code, reason)\<close>: the call is recorded; a socket not yet closed is closing.\<close>

definition socket_close :: "(int \<times> string) option \<Rightarrow> socket \<Rightarrow> socket" where
  "socket_close args sock =
     sock\<lparr>closeCalls := closeCalls sock @ [args],
          readyState := (if readyState sock = CLOSED then CLOSED else CLOSING)\<rparr>"

text \<open>What the class does to the outside: \<open>client.emit\<close> and \<open>setTimeout\<close>.\<close>

datatype client_event =
    Connected
  | Disconnected int string
  | ErrorEvent string
  | MaxReconnects
  | Ready jsval
  | MessageCreate jsval
  | GuildCreate jsval
  | ChannelCreate jsval
  | Dispatch json

datatype effect =
    Emit client_event
  | SetTimeoutConnect int

text \<open>
  The fields of a DiscordWebSocket. \<open>heartbeatInterval\<close> holds the handle of
  \<open>setInterval\<close>, written as the period it was started with. \<open>sequence\<close> starts as
  \<open>null\<close>. \<open>detached\<close> are the sockets \<open>connect\<close> has replaced: their handlers stay
  bound to this object. \<open>platform\<close> is \<open>process.platform\<close> and \<open>presence\<close> is
  \<open>client.options.presence\<close>. The client is an EventEmitter: \<open>errorListeners\<close> is
  the number of its listeners for the event \<open>error\<close> (none when it is made), and
  \<open>unhandled\<close> are the errors that \<open>emit("error", err)\<close> has thrown because there
  was no listener.
\<close>

record ws_state =
  token :: string
  platform :: string
  presence :: jsval
  ws :: "socket option"
  detached :: "socket list"
  heartbeatInterval :: "jsval option"
  sequence :: jsval
  sessionId :: jsval
  client_sessionId :: jsval
  ready :: bool
  reconnectAttempts :: nat
  maxReconnectAttempts :: nat
  errorListeners :: nat
  unhandled :: "string list"
  effects :: "effect list"

definition constructor :: "string \<Rightarrow> string \<Rightarrow> jsval \<Rightarrow> ws_state" where
  "constructor tok plat pres =
     \<lparr>token = tok, platform = plat, presence = pres, ws = None, detached = [],
      heartbeatInterval = None, sequence = Some JNull, sessionId = Some JNull,
      client_sessionId = None, ready = False, reconnectAttempts = 0,
      maxReconnectAttempts = 5, errorListeners = 0, unhandled = [], effects = []\<rparr>"

definition emit :: "client_event \<Rightarrow> ws_state \<Rightarrow> ws_state" where
  "emit e s = s\<lparr>effects := effects s @ [Emit e]\<rparr>"

text \<open>
  \<open>client.emit("error", err)\<close> with the message of \<open>err\<close>. With a listener the
  event is delivered (\<open>Inr\<close>). With none the EventEmitter throws \<open>err\<close>: what follows
  the call in the caller is not reached (\<open>Inl\<close>, the error noted in the state).
\<close>

definition emit_error :: "string \<Rightarrow> ws_state \<Rightarrow> ws_state + ws_state" where
  "emit_error msg s =
     (if errorListeners s = 0 then Inl (s\<lparr>unhandled := unhandled s @ [msg]\<rparr>)
      else Inr (emit (ErrorEvent msg) s))"

text \<open>\<open>connect()\<close>: close the socket there is, open a new one.\<close>

definition connect :: "ws_state \<Rightarrow> ws_state" where
  "connect s =
     (let s1 = (case ws s of
                  None \<Rightarrow> s
                | Some sock \<Rightarrow> s\<lparr>detached := detached s @ [socket_close None sock]\<rparr>)
      in s1\<lparr>ws := Some new_socket\<rparr>)"

definition disconnect :: "ws_state \<Rightarrow> ws_state" where
  "disconnect s =
     (case ws s of
        None \<Rightarrow> s
      | Some sock \<Rightarrow> s\<lparr>ws := Some (socket_close (Some (1000, ''Client disconnect'')) sock)\<rparr>)"

text \<open>\<open>send(payload)\<close>: only a socket that is there and OPEN gets the frame.\<close>

definition send :: "json \<Rightarrow> ws_state \<Rightarrow> ws_state" where
  "send payload s =
     (case ws s of
        None \<Rightarrow> s
      | Some sock \<Rightarrow>
          if readyState sock = OPEN
          then s\<lparr>ws := Some (sock\<lparr>outbox := outbox sock @ [payload]\<rparr>)\<rparr>
          else s)"

definition identify_payload :: "ws_state \<Rightarrow> json" where
  "identify_payload s =
     JObj (js_object
       [(''op'', Some (JNum 2)),
        (''d'', Some (JObj (js_object
           [(''token'', Some (JStr (token s))),
            (''properties'', Some (JObj
               [(''$os'', JStr (platform s)),
                (''$browser'', JStr ''Discord Client''),
                (''$device'', JStr ''Discord Client''),
                (''system_locale'', JStr ''en-US'')])),
            (''compress'', Some (JBool False)),
            (''presence'', presence s),
            (''capabilities'', Some (JNum 0)),
            (''client_state'', Some (JObj [(''guild_versions'', JObj [])]))])))])"

definition sendIdentify :: "ws_state \<Rightarrow> ws_state" where
  "sendIdentify s = send (identify_payload s) s"

text \<open>
  \<open>startHeartbeat(interval)\<close> stores the handle of a new interval timer. The timer's
  callback is \<open>heartbeat_callback\<close>: it runs each time the timer fires.
\<close>

definition startHeartbeat :: "jsval \<Rightarrow> ws_state \<Rightarrow> ws_state" where
  "startHeartbeat interval s = s\<lparr>heartbeatInterval := Some interval\<rparr>"

definition heartbeat_payload :: "ws_state \<Rightarrow> json" where
  "heartbeat_payload s = JObj (js_object [(''op'', Some (JNum 1)), (''d'', sequence s)])"

definition heartbeat_callback :: "ws_state \<Rightarrow> ws_state" where
  "heartbeat_callback s =
     (case ws s of
        None \<Rightarrow> s
      | Some sock \<Rightarrow> if readyState sock = OPEN then send (heartbeat_payload s) s else s)"

text \<open>
  \<open>handleDispatch(message)\<close>. The constructors of Message, Guild and Channel and the
  client's registries belong to the client; the event is emitted with the payload they
  are built from.
\<close>

definition handleDispatch :: "json \<Rightarrow> ws_state \<Rightarrow> js_error + ws_state" where
  "handleDispatch message s =
     (case get_prop (Some message) ''t'' of
        Inl e \<Rightarrow> Inl e
      | Inr t \<Rightarrow>
          (case get_prop (Some message) ''d'' of
             Inl e \<Rightarrow> Inl e
           | Inr d \<Rightarrow>
               if t = Some (JStr ''READY'') then
                 (case get_prop d ''session_id'' of
                    Inl e \<Rightarrow> Inl e
                  | Inr sid \<Rightarrow>
                      Inr (emit (Ready d)
                            (s\<lparr>sessionId := sid, client_sessionId := sid, ready := True\<rparr>)))
               else if t = Some (JStr ''MESSAGE_CREATE'') then Inr (emit (MessageCreate d) s)
               else if t = Some (JStr ''GUILD_CREATE'') then Inr (emit (GuildCreate d) s)
               else if t = Some (JStr ''CHANNEL_CREATE'') then Inr (emit (ChannelCreate d) s)
               else Inr (emit (Dispatch message) s)))"

text \<open>
  \<open>handleMessage(data)\<close>. \<open>data\<close> is what \<open>JSON.parse(data.toString())\<close> gives:
  \<open>None\<close> when the text is not JSON and the parser throws. An exception leaves the
  assignments made before it in place; the state at the throw is returned with it.
\<close>

definition handleMessage :: "json option \<Rightarrow> ws_state \<Rightarrow> (js_error \<times> ws_state) + ws_state" where
  "handleMessage data s =
     (case data of
        None \<Rightarrow> Inl (SyntaxError, s)
      | Some message \<Rightarrow>
          (case get_prop (Some message) ''s'' of
             Inl e \<Rightarrow> Inl (e, s)
           | Inr sq \<Rightarrow>
               (let s1 = s\<lparr>sequence := sq\<rparr>
                in case get_prop (Some message) ''op'' of
                     Inl e \<Rightarrow> Inl (e, s1)
                   | Inr opc \<Rightarrow>
                       if opc = Some (JNum 10) then
                         (case get_prop (Some message) ''d'' of
                            Inl e \<Rightarrow> Inl (e, s1)
                          | Inr d \<Rightarrow>
                              (case get_prop d ''heartbeat_interval'' of
                                 Inl e \<Rightarrow> Inl (e, s1)
                               | Inr interval \<Rightarrow> Inr (sendIdentify (startHeartbeat interval s1))))
                       else if opc = Some (JNum 11) then Inr s1
                       else if opc = Some (JNum 0) then
                         (case handleDispatch message s1 of
                            Inl e \<Rightarrow> Inl (e, s1)
                          | Inr s2 \<Rightarrow> Inr s2)
                       else Inr s1)))"

text \<open>
  \<open>reconnect()\<close>: at the ceiling the error event and then the exhaustion event, which
  is not reached when the error event throws; below the ceiling the counter, the delay
  and the timer.
\<close>

definition reconnect_delay :: "nat \<Rightarrow> int" where
  "reconnect_delay n = min (1000 * 2 ^ n) 30000"

definition reconnect :: "ws_state \<Rightarrow> ws_state" where
  "reconnect s =
     (if reconnectAttempts s \<ge> maxReconnectAttempts s
      then (case emit_error ''Max reconnect attempts reached'' s of
              Inl s1 \<Rightarrow> s1
            | Inr s1 \<Rightarrow> emit MaxReconnects s1)
      else
        (let s1 = s\<lparr>reconnectAttempts := reconnectAttempts s + 1\<rparr>
         in s1\<lparr>effects := effects s1 @ [SetTimeoutConnect (reconnect_delay (reconnectAttempts s1))]\<rparr>))"

text \<open>The handlers \<open>connect()\<close> registers on the socket.\<close>

definition on_open :: "ws_state \<Rightarrow> ws_state" where
  "on_open s = emit Connected s"

definition on_close :: "int \<Rightarrow> string \<Rightarrow> ws_state \<Rightarrow> ws_state" where
  "on_close code reason s =
     (let s1 = s\<lparr>ready := False\<rparr>;
          s2 = (case heartbeatInterval s1 of
                  None \<Rightarrow> s1
                | Some h \<Rightarrow> s1\<lparr>heartbeatInterval := None\<rparr>);
          s3 = emit (Disconnected code reason) s2
      in if code \<noteq> 1000 then reconnect s3 else s3)"

definition on_error :: "string \<Rightarrow> ws_state \<Rightarrow> ws_state" where
  "on_error msg s =
     (case emit_error (''WebSocket error: '' @ msg) s of Inl s1 \<Rightarrow> s1 | Inr s1 \<Rightarrow> s1)"

text \<open>
  What can happen to a connection, one event at a time. A socket event says whether it
  comes from the current socket (\<open>True\<close>) or from one that \<open>connect\<close> has replaced; the
  library has set the current socket's \<open>readyState\<close> when its \<open>open\<close> or \<open>close\<close>
  handler runs. An exception of \<open>handleMessage\<close> ends that handler; the fields already
  assigned stay as they are. \<open>HeartbeatTick\<close> is a firing of an interval timer that
  \<open>startHeartbeat\<close> has set, \<open>ReconnectTimer\<close> a firing of a timer that
  \<open>reconnect\<close> has set; the run allows them at any time. \<open>ClientOnError\<close> and
  \<open>ClientOffError\<close> are the calls \<open>client.on("error", f)\<close> and
  \<open>client.off("error", f)\<close> of the user of the client.
\<close>

datatype ws_event =
    CallConnect
  | CallDisconnect
  | CallSend json
  | SocketOpen bool
  | SocketMessage bool "json option"
  | SocketClose bool int string
  | SocketError bool string
  | HeartbeatTick
  | ReconnectTimer
  | ClientOnError
  | ClientOffError

definition set_ready_state :: "bool \<Rightarrow> ready_state \<Rightarrow> ws_state \<Rightarrow> ws_state" where
  "set_ready_state current rs s =
     (case ws s of
        None \<Rightarrow> s
      | Some sock \<Rightarrow> if current then s\<lparr>ws := Some (sock\<lparr>readyState := rs\<rparr>)\<rparr> else s)"

fun ws_step :: "ws_state \<Rightarrow> ws_event \<Rightarrow> ws_state" where
  "ws_step s CallConnect = connect s"
| "ws_step s CallDisconnect = disconnect s"
| "ws_step s (CallSend payload) = send payload s"
| "ws_step s (SocketOpen current) = on_open (set_ready_state current OPEN s)"
| "ws_step s (SocketMessage current data) =
     (case handleMessage data s of Inl (e, s1) \<Rightarrow> s1 | Inr s1 \<Rightarrow> s1)"
| "ws_step s (SocketClose current code reason) =
     on_close code reason (set_ready_state current CLOSED s)"
| "ws_step s (SocketError current msg) = on_error msg s"
| "ws_step s HeartbeatTick = heartbeat_callback s"
| "ws_step s ReconnectTimer = connect s"
| "ws_step s ClientOnError = s\<lparr>errorListeners := Suc (errorListeners s)\<rparr>"
| "ws_step s ClientOffError = s\<lparr>errorListeners := errorListeners s - 1\<rparr>"

definition ws_run :: "ws_state \<Rightarrow> ws_event list \<Rightarrow> ws_state" where
  "ws_run s evs = foldl ws_step s evs"

text \<open>The delays of the reconnect timers set so far, in order.\<close>

fun scheduled :: "effect list \<Rightarrow> int list" where
  "scheduled [] = []"
| "scheduled (SetTimeoutConnect d # es) = d # scheduled es"
| "scheduled (Emit e # es) = scheduled es"

fun exhausted :: "effect list \<Rightarrow> nat" where
  "exhausted [] = 0"
| "exhausted (Emit MaxReconnects # es) = Suc (exhausted es)"
| "exhausted (e # es) = exhausted es"

text \<open>
  A close that is not the clean shutdown, and an inbound frame.
\<close>

fun abnormal :: "ws_event \<Rightarrow> bool" where
  "abnormal (SocketClose current code reason) = (code \<noteq> 1000)"
| "abnormal ev = False"

fun is_message :: "ws_event \<Rightarrow> bool" where
  "is_message (SocketMessage current data) = True"
| "is_message ev = False"

text \<open>
  The sequence number as the specification words it: the most recently seen sequence
  value that a frame carried; a frame without one leaves the value as it was.
\<close>

fun spec_last_sequence :: "jsval \<Rightarrow> json list \<Rightarrow> jsval" where
  "spec_last_sequence cur [] = cur"
| "spec_last_sequence cur (m # ms) =
     spec_last_sequence (case get_prop (Some m) ''s'' of
                           Inr (Some (JNum n)) \<Rightarrow> Some (JNum n)
                         | _ \<Rightarrow> cur) ms"

text \<open>Frames and runs used as examples.\<close>

definition hello_frame :: json where
  "hello_frame = JObj [(''op'', JNum 10), (''d'', JObj [(''heartbeat_interval'', JNum 45000)])]"

definition ready_frame :: json where
  "ready_frame = JObj [(''op'', JNum 0), (''t'', JStr ''READY''), (''s'', JNum 1),
                       (''d'', JObj [(''session_id'', JStr ''abc'')])]"

definition dispatch_frame :: json where
  "dispatch_frame = JObj [(''op'', JNum 0), (''t'', JStr ''MESSAGE_CREATE''), (''s'', JNum 5),
                          (''d'', JObj [(''content'', JStr ''hi'')])]"

definition ack_frame :: json where
  "ack_frame = JObj [(''op'', JNum 11)]"

definition ready_after_failure :: "ws_event list" where
  "ready_after_failure =
     [CallConnect, SocketOpen True, SocketClose True 1006 [], ReconnectTimer, SocketOpen True,
      SocketMessage True (Some hello_frame), SocketMessage True (Some ready_frame)]"

definition six_closes :: "ws_event list" where
  "six_closes =
     [CallConnect, SocketOpen True,
      SocketClose True 1006 [], ReconnectTimer, SocketClose True 1006 [], ReconnectTimer,
      SocketClose True 4000 [], ReconnectTimer, SocketClose True 1001 [], ReconnectTimer,
      SocketClose True 1006 [], ReconnectTimer, SocketClose True 1006 []]"

section \<open>The request scheduler: RestManager\<close>

subsection \<open>Route keys\<close>

definition is_digit :: "char \<Rightarrow> bool" where
  "is_digit c = (c \<in> set ''0123456789'')"

text \<open>
  \<open>toUpperCase\<close> on the characters of a method name: the letters a to z go to A to Z,
  every other character stays. Method names are ASCII, and so are the slash and the
  digits that the route key looks for.
\<close>

definition upper_char :: "char \<Rightarrow> char" where
  "upper_char c =
     (case map_of (zip ''abcdefghijklmnopqrstuvwxyz'' ''ABCDEFGHIJKLMNOPQRSTUVWXYZ'') c of
        None \<Rightarrow> c
      | Some u \<Rightarrow> u)"

definition toUpperCase :: "string \<Rightarrow> string" where
  "toUpperCase m = map upper_char m"

text \<open>
  \<open>.replace(/\/\d+/g, "/{id}")\<close>: from left to right, a slash followed by one or
  more digits is replaced, the digits taken greedily; every other character is copied.
\<close>

function replace_ids :: "string \<Rightarrow> string" where
  "replace_ids [] = []"
| "replace_ids (c # cs) =
     (if c = CHR ''/'' \<and> cs \<noteq> [] \<and> is_digit (hd cs)
      then ''/{id}'' @ replace_ids (dropWhile is_digit cs)
      else c # replace_ids cs)"
  by pat_completeness auto
termination
  by (relation "measure length") (simp_all add: le_imp_less_Suc length_dropWhile_le)

text \<open>
  \<open>.replace(/pat/g, rep)\<close> for a pattern that is a literal text: the second
  replacement of \<open>getRouteKey\<close>, whose pattern has only escaped characters.
\<close>

fun replace_all :: "string \<Rightarrow> string \<Rightarrow> string \<Rightarrow> string" where
  "replace_all pat rep [] = []"
| "replace_all pat rep (c # cs) =
     (if pat \<noteq> [] \<and> prefix pat (c # cs)
      then rep @ replace_all pat rep (drop (length pat - 1) cs)
      else c # replace_all pat rep cs)"

definition getRouteKey :: "string \<Rightarrow> string \<Rightarrow> string" where
  "getRouteKey endpoint method =
     (let normalized =
        replace_all ''/channels/{id}/messages/{id}'' ''/channels/{id}/messages/{id}''
          (replace_ids endpoint)
      in toUpperCase method @ '':'' @ normalized)"

text \<open>
  The route key as the specification words it: the path is cut at its slashes, every
  segment that is a pure numeric identifier becomes the placeholder, nothing else
  changes.
\<close>

fun split_path :: "string \<Rightarrow> string list" where
  "split_path [] = [[]]"
| "split_path (c # cs) =
     (if c = CHR ''/'' then [] # split_path cs
      else (case split_path cs of
              [] \<Rightarrow> [[c]]
            | seg # segs \<Rightarrow> (c # seg) # segs))"

fun join_path :: "string list \<Rightarrow> string" where
  "join_path [] = []"
| "join_path [seg] = seg"
| "join_path (seg # segs) = seg @ CHR ''/'' # join_path segs"

definition is_numeric :: "string \<Rightarrow> bool" where
  "is_numeric seg = (seg \<noteq> [] \<and> list_all is_digit seg)"

definition placeholder :: "string \<Rightarrow> string" where
  "placeholder seg = (if is_numeric seg then ''{id}'' else seg)"

definition spec_route_key :: "string \<Rightarrow> string \<Rightarrow> string" where
  "spec_route_key endpoint method =
     toUpperCase method @ '':'' @ join_path (map placeholder (split_path endpoint))"

text \<open>
  An endpoint whose numeric identifiers are whole segments: the text before the first
  slash is not a number, and a later segment that starts with a digit has only digits.
\<close>

definition whole_ids :: "string \<Rightarrow> bool" where
  "whole_ids endpoint =
     (case split_path endpoint of
        [] \<Rightarrow> True
      | first # segs \<Rightarrow>
          \<not> is_numeric first
          \<and> list_all (\<lambda>seg. seg = [] \<or> \<not> is_digit (hd seg) \<or> list_all is_digit seg) segs)"


text \<open>The segments after the first, each behind its slash.\<close>

definition tail_path :: "string list \<Rightarrow> string" where
  "tail_path segs = concat (map (\<lambda>seg. CHR ''/'' # seg) segs)"

subsection \<open>Requests, responses, rate limits\<close>

text \<open>
  A JavaScript number that may be NaN: \<open>None\<close> is NaN. Comparisons with NaN are
  false and arithmetic on NaN gives NaN.
\<close>

type_synonym jsnum = "rat option"

definition js_less :: "jsnum \<Rightarrow> jsnum \<Rightarrow> bool" where
  "js_less a b = (case (a, b) of (Some x, Some y) \<Rightarrow> x < y | _ \<Rightarrow> False)"

definition js_le :: "jsnum \<Rightarrow> jsnum \<Rightarrow> bool" where
  "js_le a b = (case (a, b) of (Some x, Some y) \<Rightarrow> x \<le> y | _ \<Rightarrow> False)"

definition js_plus :: "jsnum \<Rightarrow> jsnum \<Rightarrow> jsnum" where
  "js_plus a b = (case (a, b) of (Some x, Some y) \<Rightarrow> Some (x + y) | _ \<Rightarrow> None)"

definition js_minus :: "jsnum \<Rightarrow> jsnum \<Rightarrow> jsnum" where
  "js_minus a b = (case (a, b) of (Some x, Some y) \<Rightarrow> Some (x - y) | _ \<Rightarrow> None)"

definition js_times :: "jsnum \<Rightarrow> jsnum \<Rightarrow> jsnum" where
  "js_times a b = (case (a, b) of (Some x, Some y) \<Rightarrow> Some (x * y) | _ \<Rightarrow> None)"

text \<open>
  The options of a request, as far as the scheduler reads them; \<open>http_method\<close> is
  \<open>options.method\<close>.
\<close>

record options =
  http_method :: "string option"
  body :: "string option"

text \<open>\<open>options.method || "GET"\<close>: an absent or empty method is GET.\<close>

definition method_or_get :: "options \<Rightarrow> string" where
  "method_or_get opts =
     (case http_method opts of
        None \<Rightarrow> ''GET''
      | Some m \<Rightarrow> if m = [] then ''GET'' else m)"

text \<open>
  An entry of \<open>requestQueue\<close>. \<open>promise\<close> stands for the pair \<open>resolve\<close>, \<open>reject\<close>:
  it names the promise that \<open>request()\<close> returned to its caller.
\<close>

record queued =
  endpoint :: string
  opts :: options
  promise :: nat
  timestamp :: int

text \<open>
  A response of \<open>fetch\<close>: its status, its headers as the code reads them
  (\<open>parseInt\<close> and \<open>parseFloat\<close> of the header text, NaN when the header is missing
  or no number; the comparison of \<open>x-ratelimit-global\<close> with \<open>"true"\<close>), and what
  \<open>response.json()\<close> gives, \<open>None\<close> when it rejects (no body, or a body that is not
  JSON).
\<close>

record response =
  status :: int
  x_ratelimit_remaining :: jsnum
  x_ratelimit_reset :: jsnum
  x_ratelimit_limit :: jsnum
  retry_after :: jsnum
  x_ratelimit_global :: bool
  json_body :: "json option"

text \<open>\<open>response.ok\<close> of the Fetch standard: a status from 200 to 299.\<close>

definition ok :: "response \<Rightarrow> bool" where
  "ok r = (200 \<le> status r \<and> status r \<le> 299)"

record rate_limit =
  remaining :: jsnum
  reset :: jsnum
  limit :: jsnum
  updatedAt :: int

text \<open>
  The message an \<open>Error\<close> exposes for the value handed to its constructor: the empty
  text for \<open>undefined\<close> (the property is not set and the prototype's \<open>""\<close> shows),
  the string itself for a string, and for any other value its string form
  \<open>String(v)\<close>, which is named and not spelled out.
\<close>

datatype message_text = Text string | StringOf json

definition error_text :: "jsval \<Rightarrow> message_text" where
  "error_text m =
     (case m of
        None \<Rightarrow> Text []
      | Some (JStr t) \<Rightarrow> Text t
      | Some v \<Rightarrow> StringOf v)"

text \<open>
  The class DiscordAPIError: \<open>super(message)\<close>, the name, the status and the path.

  What \<open>makeRequest\<close> throws: a DiscordAPIError, the rejection of \<open>fetch\<close>, the
  rejection of \<open>response.json()\<close> on a success response, or the TypeError of reading
  \<open>message\<close> from a body that is \<open>null\<close>.
\<close>

record api_error =
  error_name :: string
  error_message :: message_text
  error_status :: int
  error_path :: string

definition DiscordAPIError :: "jsval \<Rightarrow> int \<Rightarrow> string \<Rightarrow> api_error" where
  "DiscordAPIError msg code p =
     \<lparr>error_name = ''DiscordAPIError'', error_message = error_text msg, error_status = code,
      error_path = p\<rparr>"

datatype failure =
    ApiError api_error
  | FetchRejected string
  | JsonRejected
  | MessageOfNull

text \<open>What \<open>makeRequest\<close> returns: \<open>null\<close> for 204, the parsed body, or \<open>undefined\<close>.\<close>

datatype outcome = Null | Data json | Undefined

text \<open>
  What the scheduler does, in order: \<open>Execute\<close> is the call of \<open>makeRequest\<close> for a
  request, \<open>Fetch\<close> the call of \<open>fetch\<close> with the attempt index, \<open>FetchSettled\<close> the
  end of that HTTP call, \<open>Resolve\<close> and \<open>Reject\<close> the calls of the caller's
  \<open>resolve\<close> and \<open>reject\<close>, \<open>Sleep\<close> a call of \<open>sleep\<close>.
\<close>

datatype action =
    Execute queued
  | Fetch queued nat
  | FetchSettled
  | Resolve queued outcome
  | Reject queued failure
  | Sleep jsnum

text \<open>
  Where \<open>processQueue\<close> is suspended: not running, or at one of its \<open>await\<close>s (the
  \<open>await\<close>s of \<open>makeRequest\<close> included, with the request and the attempt index).
  The state holds one such point: \<open>processQueue\<close> starts its loop only when
  \<open>processingQueue\<close> is false, and the invariant \<open>good\<close> below shows that no loop is
  suspended then.
\<close>

datatype control =
    Idle
  | GlobalWait
  | RouteWait queued
  | Fetching queued nat
  | RateLimitWait queued nat
  | Backoff queued nat
  | Courtesy

record rest_state =
  rateLimits :: "(string \<times> rate_limit) list"
  globalRateLimit :: "jsnum option"
  requestQueue :: "queued list"
  processingQueue :: bool
  control :: control
  trace :: "action list"

definition rest_constructor :: rest_state where
  "rest_constructor =
     \<lparr>rateLimits = [], globalRateLimit = None, requestQueue = [], processingQueue = False,
      control = Idle, trace = []\<rparr>"

definition now_num :: "int \<Rightarrow> jsnum" where
  "now_num now = Some (of_int now)"

text \<open>\<open>Map.set\<close>: an existing key keeps its place, a new key goes to the end.\<close>

fun map_set :: "string \<Rightarrow> rate_limit \<Rightarrow> (string \<times> rate_limit) list \<Rightarrow> (string \<times> rate_limit) list" where
  "map_set k v [] = [(k, v)]"
| "map_set k v ((k', v') # kvs) = (if k' = k then (k, v) # kvs else (k', v') # map_set k v kvs)"

definition cleanupRateLimits :: "int \<Rightarrow> rest_state \<Rightarrow> rest_state" where
  "cleanupRateLimits now s =
     s\<lparr>rateLimits := filter (\<lambda>(key, rateLimit). \<not> js_less (reset rateLimit) (now_num now))
                         (rateLimits s)\<rparr>"

definition updateRateLimits :: "int \<Rightarrow> string \<Rightarrow> string \<Rightarrow> response \<Rightarrow> rest_state \<Rightarrow> rest_state" where
  "updateRateLimits now ep meth resp s =
     (let routeKey = getRouteKey ep meth;
          remaining' = x_ratelimit_remaining resp;
          resetTimestamp = x_ratelimit_reset resp;
          limit' = x_ratelimit_limit resp
      in if remaining' \<noteq> None \<and> resetTimestamp \<noteq> None
         then cleanupRateLimits now
                (s\<lparr>rateLimits :=
                     map_set routeKey
                       \<lparr>remaining = remaining', reset = js_times resetTimestamp (Some 1000),
                        limit = limit', updatedAt = now\<rparr>
                       (rateLimits s)\<rparr>)
         else s)"

subsection \<open>processQueue and makeRequest, from one await to the next\<close>

definition log_action :: "action \<Rightarrow> rest_state \<Rightarrow> rest_state" where
  "log_action a s = s\<lparr>trace := trace s @ [a]\<rparr>"

text \<open>\<open>await this.sleep(ms)\<close>: the timer is set and the function waits at \<open>k\<close>.\<close>

definition sleep :: "jsnum \<Rightarrow> control \<Rightarrow> rest_state \<Rightarrow> rest_state" where
  "sleep ms k s = (log_action (Sleep ms) s)\<lparr>control := k\<rparr>"

text \<open>
  \<open>makeRequest\<close> returned \<open>result\<close> to \<open>processQueue\<close>: \<open>resolve(result)\<close>, then the
  100 ms between requests.
\<close>

definition returned :: "queued \<Rightarrow> outcome \<Rightarrow> rest_state \<Rightarrow> rest_state" where
  "returned q result s = sleep (Some 100) Courtesy (log_action (Resolve q result) s)"

text \<open>
  The head of the loop of \<open>makeRequest\<close> with the attempt index: below \<open>maxRetries\<close>
  the next \<open>fetch\<close> is issued; at \<open>maxRetries\<close> the loop ends and the function returns
  without a value.
\<close>

definition maxRetries :: nat where
  "maxRetries = 3"

definition makeRequest_loop :: "queued \<Rightarrow> nat \<Rightarrow> rest_state \<Rightarrow> rest_state" where
  "makeRequest_loop q attempt s =
     (if attempt < maxRetries
      then (log_action (Fetch q attempt) s)\<lparr>control := Fetching q attempt\<rparr>
      else returned q Undefined s)"

definition makeRequest :: "queued \<Rightarrow> rest_state \<Rightarrow> rest_state" where
  "makeRequest q s = makeRequest_loop q 0 (log_action (Execute q) s)"

text \<open>
  The body of the loop of \<open>processQueue\<close> after the global check: take the first
  request, wait for its route if the route is blocked, else execute it. The queue is
  not empty here; on an empty queue the destructuring of \<open>undefined\<close> throws outside
  the \<open>try\<close> and the function ends with \<open>processingQueue\<close> still set.
\<close>

definition dequeue :: "int \<Rightarrow> rest_state \<Rightarrow> rest_state" where
  "dequeue now s =
     (case requestQueue s of
        [] \<Rightarrow> s\<lparr>control := Idle\<rparr>
      | q # rest \<Rightarrow>
          (let s1 = s\<lparr>requestQueue := rest\<rparr>;
               routeKey = getRouteKey (endpoint q) (method_or_get (opts q))
           in case map_of (rateLimits s1) routeKey of
                None \<Rightarrow> makeRequest q s1
              | Some rateLimit \<Rightarrow>
                  if js_le (remaining rateLimit) (Some 0)
                     \<and> js_less (now_num now) (reset rateLimit)
                  then sleep (js_minus (reset rateLimit) (now_num now)) (RouteWait q) s1
                  else makeRequest q s1))"

text \<open>The test of the \<open>while\<close> loop of \<open>processQueue\<close> and the global check.\<close>

definition processLoop :: "int \<Rightarrow> rest_state \<Rightarrow> rest_state" where
  "processLoop now s =
     (if requestQueue s = [] then s\<lparr>processingQueue := False, control := Idle\<rparr>
      else
        (case globalRateLimit s of
           None \<Rightarrow> dequeue now s
         | Some reset' \<Rightarrow>
             if js_less (now_num now) reset'
             then sleep (js_minus reset' (now_num now)) GlobalWait s
             else dequeue now s))"

definition processQueue :: "int \<Rightarrow> rest_state \<Rightarrow> rest_state" where
  "processQueue now s =
     (if processingQueue s \<or> requestQueue s = [] then s
      else processLoop now (s\<lparr>processingQueue := True\<rparr>))"

definition request :: "int \<Rightarrow> string \<Rightarrow> options \<Rightarrow> nat \<Rightarrow> rest_state \<Rightarrow> rest_state" where
  "request now ep os p s =
     processQueue now
       (s\<lparr>requestQueue := requestQueue s
            @ [\<lparr>endpoint = ep, opts = os, promise = p, timestamp = now\<rparr>]\<rparr>)"

text \<open>
  \<open>makeRequest\<close> threw \<open>error\<close> to \<open>processQueue\<close>: \<open>reject(error)\<close>, then the next
  turn of the loop at once.
\<close>

definition thrown :: "int \<Rightarrow> queued \<Rightarrow> failure \<Rightarrow> rest_state \<Rightarrow> rest_state" where
  "thrown now q error s = processLoop now (log_action (Reject q error) s)"

text \<open>
  The \<open>catch\<close> block of \<open>makeRequest\<close>: on the last attempt the error is thrown on,
  before that the function sleeps \<open>2 ^ attempt\<close> seconds and tries again.
\<close>

definition catch_block :: "int \<Rightarrow> queued \<Rightarrow> nat \<Rightarrow> failure \<Rightarrow> rest_state \<Rightarrow> rest_state" where
  "catch_block now q attempt error s =
     (if attempt = maxRetries - 1 then thrown now q error s
      else sleep (Some (2 ^ attempt * 1000)) (Backoff q attempt) s)"

text \<open>The \<open>try\<close> block of \<open>makeRequest\<close> once \<open>fetch\<close> has given a response.\<close>

definition on_response :: "int \<Rightarrow> queued \<Rightarrow> nat \<Rightarrow> response \<Rightarrow> rest_state \<Rightarrow> rest_state" where
  "on_response now q attempt resp s =
     (let s1 = updateRateLimits now (endpoint q) (method_or_get (opts q)) resp s
      in if status resp = 429 then
           (let retryAfter = js_times (retry_after resp) (Some 1000);
                s2 = (if x_ratelimit_global resp
                      then s1\<lparr>globalRateLimit := Some (js_plus (now_num now) retryAfter)\<rparr>
                      else s1)
            in sleep retryAfter (RateLimitWait q attempt) s2)
         else if \<not> ok resp then
           (let error = (case json_body resp of
                           None \<Rightarrow> JObj [(''message'', JStr ''Unknown error'')]
                         | Some b \<Rightarrow> b)
            in case get_prop (Some error) ''message'' of
                 Inl e \<Rightarrow> catch_block now q attempt MessageOfNull s1
               | Inr msg \<Rightarrow>
                   catch_block now q attempt
                     (ApiError (DiscordAPIError msg (status resp) (endpoint q))) s1)
         else if status resp = 204 then returned q Null s1
         else
           (case json_body resp of
              None \<Rightarrow> catch_block now q attempt JsonRejected s1
            | Some b \<Rightarrow> returned q (Data b) s1))"

text \<open>
  The events that resume the scheduler: a call of \<open>request()\<close>, the timer of the
  pending \<open>sleep\<close>, and the end of the pending \<open>fetch\<close> (a rejection, or a response
  with its body read). Each carries the value of \<open>Date.now()\<close> at that moment. An
  event that nothing waits for cannot occur and leaves the state as it is.
\<close>

datatype rest_event =
    Request int string options nat
  | TimerFired int
  | FetchDone int "string + response"

fun rest_step :: "rest_state \<Rightarrow> rest_event \<Rightarrow> rest_state" where
  "rest_step s (Request now ep os p) = request now ep os p s"
| "rest_step s (TimerFired now) =
     (case control s of
        GlobalWait \<Rightarrow> dequeue now (s\<lparr>globalRateLimit := None\<rparr>)
      | RouteWait q \<Rightarrow> makeRequest q s
      | RateLimitWait q attempt \<Rightarrow> makeRequest_loop q (attempt + 1) s
      | Backoff q attempt \<Rightarrow> makeRequest_loop q (attempt + 1) s
      | Courtesy \<Rightarrow> processLoop now s
      | _ \<Rightarrow> s)"
| "rest_step s (FetchDone now result) =
     (case control s of
        Fetching q attempt \<Rightarrow>
          (case result of
             Inl msg \<Rightarrow> catch_block now q attempt (FetchRejected msg) (log_action FetchSettled s)
           | Inr resp \<Rightarrow> on_response now q attempt resp (log_action FetchSettled s))
      | _ \<Rightarrow> s)"

definition rest_run :: "rest_state \<Rightarrow> rest_event list \<Rightarrow> rest_state" where
  "rest_run s evs = foldl rest_step s evs"

subsection \<open>Reading a trace\<close>

fun submitted :: "rest_event list \<Rightarrow> queued list" where
  "submitted [] = []"
| "submitted (Request now ep os p # evs) =
     \<lparr>endpoint = ep, opts = os, promise = p, timestamp = now\<rparr> # submitted evs"
| "submitted (ev # evs) = submitted evs"

fun executed :: "action list \<Rightarrow> queued list" where
  "executed [] = []"
| "executed (Execute q # as) = q # executed as"
| "executed (a # as) = executed as"

text \<open>
  A monitor of the single flight: it holds the request in execution, if any, and
  whether an HTTP call is in flight. It refuses (\<open>None\<close>) an \<open>Execute\<close> while a request
  is in execution, a \<open>Fetch\<close> while an HTTP call is in flight or for a request that is
  not in execution, and a \<open>Resolve\<close> or \<open>Reject\<close> of a request that is not in
  execution or whose HTTP call is in flight.
\<close>

fun monitor :: "queued option \<times> bool \<Rightarrow> action \<Rightarrow> (queued option \<times> bool) option" where
  "monitor (None, False) (Execute q) = Some (Some q, False)"
| "monitor (Some q, False) (Fetch q' attempt) = (if q' = q then Some (Some q, True) else None)"
| "monitor (Some q, True) FetchSettled = Some (Some q, False)"
| "monitor (Some q, False) (Resolve q' result) = (if q' = q then Some (None, False) else None)"
| "monitor (Some q, False) (Reject q' error) = (if q' = q then Some (None, False) else None)"
| "monitor m (Sleep ms) = Some m"
| "monitor m a = None"

definition monitor_step :: "(queued option \<times> bool) option \<Rightarrow> action \<Rightarrow> (queued option \<times> bool) option" where
  "monitor_step mo a = (case mo of None \<Rightarrow> None | Some m \<Rightarrow> monitor m a)"

definition single_flight :: "action list \<Rightarrow> (queued option \<times> bool) option" where
  "single_flight as = foldl monitor_step (Some (None, False)) as"

text \<open>
  The message of a response as the specification words it, by the shape of the body:
  the placeholder when no body parses, the \<open>message\<close> of the body when it has one (as
  it is when it is a string, its string form otherwise), and the empty text when the
  body has none.
\<close>

definition spec_body_message :: "response \<Rightarrow> message_text" where
  "spec_body_message r =
     (case json_body r of
        None \<Rightarrow> Text ''Unknown error''
      | Some (JObj kvs) \<Rightarrow>
          (case map_of kvs ''message'' of
             None \<Rightarrow> Text []
           | Some (JStr t) \<Rightarrow> Text t
           | Some v \<Rightarrow> StringOf v)
      | Some b \<Rightarrow> Text [])"

text \<open>Responses and runs used as examples.\<close>

definition plain_response :: "int \<Rightarrow> json option \<Rightarrow> response" where
  "plain_response code b =
     \<lparr>status = code, x_ratelimit_remaining = None, x_ratelimit_reset = None,
      x_ratelimit_limit = None, retry_after = None, x_ratelimit_global = False,
      json_body = b\<rparr>"

definition rate_limited :: "rat \<Rightarrow> response" where
  "rate_limited secs = (plain_response 429 None)\<lparr>retry_after := Some secs\<rparr>"

definition get_channel :: queued where
  "get_channel =
     \<lparr>endpoint = ''/channels/1'', opts = \<lparr>http_method = None, body = None\<rparr>, promise = 0, timestamp = 0\<rparr>"

definition post_message :: queued where
  "post_message =
     \<lparr>endpoint = ''/channels/1/messages'', opts = \<lparr>http_method = Some ''POST'', body = Some ''{}''\<rparr>,
      promise = 1, timestamp = 5\<rparr>"

definition two_requests :: "rest_event list" where
  "two_requests =
     [Request 0 ''/channels/1'' \<lparr>http_method = None, body = None\<rparr> 0,
      Request 5 ''/channels/1/messages'' \<lparr>http_method = Some ''POST'', body = Some ''{}''\<rparr> 1,
      FetchDone 40 (Inr (plain_response 200 (Some (JObj [(''id'', JStr ''1'')])))),
      TimerFired 140,
      FetchDone 180 (Inr (plain_response 204 None)),
      TimerFired 280]"

definition three_rate_limits :: "rest_event list" where
  "three_rate_limits =
     [Request 0 ''/channels/1'' \<lparr>http_method = None, body = None\<rparr> 0,
      FetchDone 40 (Inr (rate_limited 1)), TimerFired 1040,
      FetchDone 1080 (Inr (rate_limited 2)), TimerFired 3080,
      FetchDone 3120 (Inr (rate_limited 1)), TimerFired 4120,
      TimerFired 4220]"

definition unknown_channel :: response where
  "unknown_channel = plain_response 404 (Some (JObj [(''message'', JStr ''Unknown Channel'')]))"

definition missing_access :: response where
  "missing_access = plain_response 403 (Some (JObj [(''code'', JNum 50001)]))"

text \<open>
  What the monitor holds at each point of suspension, and the request that has left
  the queue but is not yet in execution.
\<close>

fun mon :: "control \<Rightarrow> queued option \<times> bool" where
  "mon (Fetching q attempt) = (Some q, True)"
| "mon (RateLimitWait q attempt) = (Some q, False)"
| "mon (Backoff q attempt) = (Some q, False)"
| "mon k = (None, False)"

fun pending :: "control \<Rightarrow> queued list" where
  "pending (RouteWait q) = [q]"
| "pending k = []"

definition good :: "queued list \<Rightarrow> rest_state \<Rightarrow> bool" where
  "good subs s =
     (single_flight (trace s) = Some (mon (control s))
      \<and> executed (trace s) @ pending (control s) @ requestQueue s = subs
      \<and> (\<not> processingQueue s \<longrightarrow> control s = Idle \<and> requestQueue s = []))"

definition between :: "queued list \<Rightarrow> rest_state \<Rightarrow> bool" where
  "between subs s =
     (single_flight (trace s) = Some (None, False)
      \<and> executed (trace s) @ requestQueue s = subs
      \<and> processingQueue s)"

definition executing :: "queued \<Rightarrow> queued list \<Rightarrow> rest_state \<Rightarrow> bool" where
  "executing q subs s =
     (single_flight (trace s) = Some (Some q, False)
      \<and> executed (trace s) @ requestQueue s = subs
      \<and> processingQueue s)"

section \<open>Properties of the gateway connection\<close>

lemma scheduled_append: "scheduled (es @ fs) = scheduled es @ scheduled fs"
  by (induction es rule: scheduled.induct) auto

lemma exhausted_append: "exhausted (es @ fs) = exhausted es + exhausted fs"
  by (induction es rule: exhausted.induct) auto

lemmas ws_defs =
  ws_run_def connect_def disconnect_def send_def sendIdentify_def startHeartbeat_def
  heartbeat_callback_def heartbeat_payload_def handleDispatch_def handleMessage_def
  reconnect_def reconnect_delay_def on_open_def on_close_def on_error_def emit_def emit_error_def
  set_ready_state_def new_socket_def socket_close_def constructor_def identify_payload_def

text \<open>
  C10. \<open>send(payload)\<close> on a connection whose socket is absent or not OPEN returns
  without sending, raises nothing and queues nothing: the whole state, the socket's
  outbox included, is what it was. The same holds for the identify frame and for the
  heartbeat frame, which go through \<open>send\<close>.
\<close>

theorem send_closed_socket:
  "ws s = None \<or> (\<exists>sock. ws s = Some sock \<and> readyState sock \<noteq> OPEN) \<Longrightarrow>
     send payload s = s \<and> sendIdentify s = s \<and> heartbeat_callback s = s"
  by (auto simp: send_def sendIdentify_def heartbeat_callback_def)

theorem send_closed_socket_witness:
  "send (JObj [(''op'', JNum 1)]) (connect (constructor ''tok'' ''linux'' None))
     = connect (constructor ''tok'' ''linux'' None)
   \<and> send (JObj [(''op'', JNum 1)]) (constructor ''tok'' ''linux'' None)
     = constructor ''tok'' ''linux'' None"
  using send_closed_socket [of "connect (constructor ''tok'' ''linux'' None)" "JObj [(''op'', JNum 1)]"]
        send_closed_socket [of "constructor ''tok'' ''linux'' None" "JObj [(''op'', JNum 1)]"]
  by (simp add: connect_def constructor_def new_socket_def)

text \<open>
  C6. A close with the clean-shutdown code 1000, the code \<open>disconnect()\<close> sends, sets
  no reconnect timer, emits no exhaustion event and leaves the attempt counter alone,
  whatever the counter is; \<open>disconnect()\<close> itself records a close call with code 1000
  and sets no timer. A close with any other code, while the counter is below the
  ceiling, runs the reconnect policy: the counter goes up by one and a timer for
  \<open>connect()\<close> is set with the delay of the new count.
\<close>

theorem clean_close_no_reconnect:
  "scheduled (effects (on_close 1000 reason s)) = scheduled (effects s)
   \<and> exhausted (effects (on_close 1000 reason s)) = exhausted (effects s)
   \<and> reconnectAttempts (on_close 1000 reason s) = reconnectAttempts s
   \<and> scheduled (effects (disconnect s)) = scheduled (effects s)
   \<and> (\<forall>sock. ws s = Some sock \<longrightarrow>
         (\<exists>sock'. ws (disconnect s) = Some sock'
            \<and> closeCalls sock' = closeCalls sock @ [Some (1000, ''Client disconnect'')]))
   \<and> (code \<noteq> 1000 \<and> reconnectAttempts s < maxReconnectAttempts s \<longrightarrow>
        scheduled (effects (on_close code reason s))
          = scheduled (effects s) @ [reconnect_delay (Suc (reconnectAttempts s))]
        \<and> reconnectAttempts (on_close code reason s) = Suc (reconnectAttempts s))"
  by (auto simp: on_close_def emit_def reconnect_def disconnect_def socket_close_def
                 scheduled_append exhausted_append Let_def
           split: option.splits)

theorem clean_close_no_reconnect_witness:
  "scheduled (effects (on_close 1000 ''Client disconnect''
      (disconnect (ws_run (constructor ''tok'' ''linux'' None) ready_after_failure)))) = [2000]
   \<and> scheduled (effects (on_close 1006 []
      (ws_run (constructor ''tok'' ''linux'' None) ready_after_failure))) = [2000, 4000]"
proof -
  let ?s = "ws_run (constructor ''tok'' ''linux'' None) ready_after_failure"
  have e: "scheduled (effects ?s) = [2000]" "reconnectAttempts ?s = 1" "maxReconnectAttempts ?s = 5"
    by (simp_all add: ws_defs ready_after_failure_def hello_frame_def ready_frame_def)
  from clean_close_no_reconnect [of "''Client disconnect''" "disconnect ?s" 1000]
       clean_close_no_reconnect [of "[]" ?s 1006] e
  show ?thesis by (simp add: reconnect_delay_def)
qed

lemma send_keeps:
  "effects (send p s) = effects s" "reconnectAttempts (send p s) = reconnectAttempts s"
  "maxReconnectAttempts (send p s) = maxReconnectAttempts s" "sequence (send p s) = sequence s"
  by (auto simp: send_def split: option.splits)

lemma handleDispatch_keeps:
  "handleDispatch m s = Inr s' \<Longrightarrow>
     scheduled (effects s') = scheduled (effects s) \<and> exhausted (effects s') = exhausted (effects s)
     \<and> reconnectAttempts s' = reconnectAttempts s \<and> maxReconnectAttempts s' = maxReconnectAttempts s
     \<and> sequence s' = sequence s"
  by (auto simp: handleDispatch_def emit_def scheduled_append exhausted_append
           split: sum.splits if_splits)

lemma handleMessage_keeps:
  "handleMessage data s = Inr s' \<or> handleMessage data s = Inl (e, s') \<Longrightarrow>
     scheduled (effects s') = scheduled (effects s) \<and> exhausted (effects s') = exhausted (effects s)
     \<and> reconnectAttempts s' = reconnectAttempts s \<and> maxReconnectAttempts s' = maxReconnectAttempts s"
  by (auto simp: handleMessage_def sendIdentify_def startHeartbeat_def send_keeps Let_def
           dest!: handleDispatch_keeps split: sum.splits if_splits option.splits)

lemma step_other:
  "\<not> abnormal ev \<Longrightarrow>
     scheduled (effects (ws_step s ev)) = scheduled (effects s)
     \<and> exhausted (effects (ws_step s ev)) = exhausted (effects s)
     \<and> reconnectAttempts (ws_step s ev) = reconnectAttempts s
     \<and> maxReconnectAttempts (ws_step s ev) = maxReconnectAttempts s"
proof (cases ev)
  case (SocketMessage c data)
  then show ?thesis
    using handleMessage_keeps [of data s]
    by (auto split: sum.splits prod.splits)
next
  case (SocketClose c code reason)
  assume "\<not> abnormal ev"
  with SocketClose show ?thesis
    by (auto simp: on_close_def emit_def set_ready_state_def scheduled_append exhausted_append Let_def
             split: option.splits)
qed (auto simp: connect_def disconnect_def send_keeps on_open_def on_error_def emit_def
          emit_error_def heartbeat_callback_def set_ready_state_def scheduled_append
          exhausted_append Let_def
          split: option.splits)

lemma step_abnormal:
  "abnormal ev \<Longrightarrow>
     maxReconnectAttempts (ws_step s ev) = maxReconnectAttempts s
     \<and> (reconnectAttempts s < maxReconnectAttempts s \<longrightarrow>
          scheduled (effects (ws_step s ev))
            = scheduled (effects s) @ [reconnect_delay (Suc (reconnectAttempts s))]
          \<and> reconnectAttempts (ws_step s ev) = Suc (reconnectAttempts s))
     \<and> (maxReconnectAttempts s \<le> reconnectAttempts s \<longrightarrow>
          scheduled (effects (ws_step s ev)) = scheduled (effects s)
          \<and> reconnectAttempts (ws_step s ev) = reconnectAttempts s)"
  by (cases ev)
     (auto simp: on_close_def reconnect_def emit_def emit_error_def set_ready_state_def
                 scheduled_append Let_def split: option.splits)

lemma run_schedule:
  "reconnectAttempts s \<le> maxReconnectAttempts s \<Longrightarrow>
   scheduled (effects (ws_run s evs))
     = scheduled (effects s)
       @ map (\<lambda>i. reconnect_delay (Suc i))
           [reconnectAttempts s ..<
            min (reconnectAttempts s + length (filter abnormal evs)) (maxReconnectAttempts s)]
   \<and> reconnectAttempts (ws_run s evs)
     = min (reconnectAttempts s + length (filter abnormal evs)) (maxReconnectAttempts s)
   \<and> maxReconnectAttempts (ws_run s evs) = maxReconnectAttempts s"
proof (induction evs arbitrary: s)
  case Nil
  then show ?case by (simp add: ws_run_def)
next
  case (Cons ev evs)
  show ?case
  proof (cases "abnormal ev")
    case False
    with Cons.prems Cons.IH [of "ws_step s ev"] step_other [of ev s]
    show ?thesis by (simp add: ws_run_def)
  next
    case True
    show ?thesis
    proof (cases "reconnectAttempts s < maxReconnectAttempts s")
      case lt: True
      let ?k = "min (Suc (reconnectAttempts s + length (filter abnormal evs))) (maxReconnectAttempts s)"
      have le: "reconnectAttempts s < ?k" using lt by simp
      have upt: "[reconnectAttempts s ..< ?k] = reconnectAttempts s # [Suc (reconnectAttempts s) ..< ?k]"
        using le by (rule upt_conv_Cons)
      from lt True step_abnormal [of ev s]
      have st: "maxReconnectAttempts (ws_step s ev) = maxReconnectAttempts s"
           "scheduled (effects (ws_step s ev))
              = scheduled (effects s) @ [reconnect_delay (Suc (reconnectAttempts s))]"
           "reconnectAttempts (ws_step s ev) = Suc (reconnectAttempts s)"
        by simp_all
      have "reconnectAttempts (ws_step s ev) \<le> maxReconnectAttempts (ws_step s ev)"
        using lt st by simp
      from Cons.IH [OF this] st upt True
      show ?thesis by (simp add: ws_run_def)
    next
      case False
      with True Cons.prems Cons.IH [of "ws_step s ev"] step_abnormal [of ev s]
      show ?thesis by (simp add: ws_run_def)
    qed
  qed
qed

text \<open>
  The delays of the reconnect timers, for every run: from attempt count 0 and ceiling
  5 the timers set are those of the first five abnormal closes, the n-th with the
  delay \<open>min (1000 * 2 ^ n) 30000\<close> milliseconds; a later abnormal close sets none.
\<close>

lemma backoff_delays_of_run:
  "reconnectAttempts s = 0 \<and> maxReconnectAttempts s = 5 \<Longrightarrow>
   scheduled (effects (ws_run s evs))
     = scheduled (effects s)
       @ map (\<lambda>n. min (1000 * 2 ^ n) 30000) [1 ..< Suc (min (length (filter abnormal evs)) 5)]"
proof -
  assume a: "reconnectAttempts s = 0 \<and> maxReconnectAttempts s = 5"
  have m: "map (\<lambda>n. min (1000 * 2 ^ n) 30000) [1 ..< Suc k]
             = map (\<lambda>i. reconnect_delay (Suc i)) [0 ..< k]" for k
    by (induction k) (simp_all add: reconnect_delay_def)
  from a have "reconnectAttempts s \<le> maxReconnectAttempts s" by simp
  from run_schedule [OF this, of evs] a
  have "scheduled (effects (ws_run s evs))
          = scheduled (effects s)
            @ map (\<lambda>i. reconnect_delay (Suc i)) [0 ..< min (length (filter abnormal evs)) 5]"
    by simp
  then show ?thesis by (simp only: m)
qed

text \<open>
  At the ceiling, a client that listens for \<open>error\<close> gets the error event and then the
  exhaustion event; for a client with no such listener the error event throws, the
  error is noted and the exhaustion event is not emitted. No timer is set either way.
\<close>

lemma reconnect_at_ceiling:
  "maxReconnectAttempts s \<le> reconnectAttempts s \<Longrightarrow>
     scheduled (effects (reconnect s)) = scheduled (effects s)
     \<and> (0 < errorListeners s \<longrightarrow>
          effects (reconnect s)
            = effects s @ [Emit (ErrorEvent ''Max reconnect attempts reached''), Emit MaxReconnects])
     \<and> (errorListeners s = 0 \<longrightarrow>
          effects (reconnect s) = effects s
          \<and> unhandled (reconnect s) = unhandled s @ [''Max reconnect attempts reached''])"
  by (auto simp: reconnect_def emit_error_def emit_def scheduled_append)

text \<open>
  C5, on a client with no listener for \<open>error\<close> (the client as it is made) and six
  abnormal closes in a row. The five reconnect timers have the delays of the claim,
  2000, 4000, 8000, 16000 and 30000 ms, and the sixth close sets no timer. But at the
  sixth close \<open>emit("error", err)\<close> throws before \<open>emit("maxReconnects")\<close> is reached:
  the exhaustion event is not emitted, and the error is left unhandled. The same six
  closes on a client that listens for \<open>error\<close> do emit the exhaustion event.
\<close>

theorem reconnect_exhausted_without_listener:
  "scheduled (effects (ws_run (constructor ''tok'' ''linux'' None) six_closes))
     = [2000, 4000, 8000, 16000, 30000]
   \<and> exhausted (effects (ws_run (constructor ''tok'' ''linux'' None) six_closes)) = 0
   \<and> unhandled (ws_run (constructor ''tok'' ''linux'' None) six_closes)
     = [''Max reconnect attempts reached'']
   \<and> scheduled (effects (ws_run (constructor ''tok'' ''linux'' None) (ClientOnError # six_closes)))
     = [2000, 4000, 8000, 16000, 30000]
   \<and> exhausted (effects (ws_run (constructor ''tok'' ''linux'' None) (ClientOnError # six_closes)))
     = 1"
  by (simp add: ws_defs six_closes_def)

text \<open>
  The claim C4 as it is stated fails: after a failed connection and a completed
  handshake (READY handled, \<open>ready\<close> set) the counter is still 1, and the next
  abnormal close is scheduled as attempt 2, with 4000 ms.
\<close>

theorem reconnect_counter_counterexample:
  "ready (ws_run (constructor ''tok'' ''linux'' None) ready_after_failure)
   \<and> reconnectAttempts (ws_run (constructor ''tok'' ''linux'' None) ready_after_failure) = 1
   \<and> scheduled (effects (ws_run (constructor ''tok'' ''linux'' None)
                  (ready_after_failure @ [SocketClose True 1006 []]))) = [2000, 4000]"
  by (simp add: ws_defs ready_after_failure_def hello_frame_def ready_frame_def)

text \<open>
  C4, amended. The reconnect attempt counter goes up by one on every abnormal close
  while it is below the ceiling, and nothing resets it: after any run of events it is
  the earlier count plus the number of abnormal closes, capped at the ceiling, whatever
  READY frames were handled in between. It never goes down.
\<close>

theorem reconnect_counter_never_reset:
  "reconnectAttempts s \<le> maxReconnectAttempts s \<Longrightarrow>
     reconnectAttempts (ws_run s evs)
       = min (reconnectAttempts s + length (filter abnormal evs)) (maxReconnectAttempts s)
     \<and> reconnectAttempts s \<le> reconnectAttempts (ws_run s evs)"
  using run_schedule [of s evs] by simp

theorem reconnect_counter_never_reset_witness:
  "reconnectAttempts (ws_run (constructor ''tok'' ''linux'' None) ready_after_failure) = 1"
  using reconnect_counter_never_reset [of "constructor ''tok'' ''linux'' None" ready_after_failure]
  by (simp add: constructor_def ready_after_failure_def)

lemma step_keeps_sequence: "\<not> is_message ev \<Longrightarrow> sequence (ws_step s ev) = sequence s"
  by (cases ev)
     (auto simp: connect_def disconnect_def send_def on_open_def on_close_def on_error_def
                 reconnect_def emit_def emit_error_def heartbeat_callback_def set_ready_state_def
                 Let_def
           split: option.splits)

lemma run_keeps_sequence:
  "\<forall>ev \<in> set evs. \<not> is_message ev \<Longrightarrow> sequence (ws_run s evs) = sequence s"
  by (induction evs arbitrary: s) (simp_all add: ws_run_def step_keeps_sequence)

lemma handleDispatch_sequence: "handleDispatch m s = Inr s' \<Longrightarrow> sequence s' = sequence s"
  by (auto simp: handleDispatch_def emit_def split: sum.splits if_splits)

lemma message_sets_sequence:
  "get_prop (Some m) ''s'' = Inr v \<Longrightarrow> sequence (ws_step s (SocketMessage c (Some m))) = v"
  by (auto simp: handleMessage_def sendIdentify_def startHeartbeat_def send_def Let_def
           dest!: handleDispatch_sequence split: sum.splits if_splits option.splits prod.splits)

text \<open>
  The claim C7 as it is stated fails: after a dispatch frame with sequence 5 and an
  acknowledgment frame without a sequence field, the stored sequence is \<open>undefined\<close>,
  not 5, and the heartbeat frame carries no \<open>d\<close>.
\<close>

theorem sequence_counterexample:
  "sequence (ws_run (constructor ''tok'' ''linux'' None)
       [SocketMessage True (Some dispatch_frame), SocketMessage True (Some ack_frame)]) = None
   \<and> spec_last_sequence (sequence (constructor ''tok'' ''linux'' None)) [dispatch_frame, ack_frame]
       = Some (JNum 5)
   \<and> sequence (ws_run (constructor ''tok'' ''linux'' None)
       [SocketMessage True (Some dispatch_frame), SocketMessage True (Some ack_frame)])
       \<noteq> spec_last_sequence (sequence (constructor ''tok'' ''linux'' None))
            [dispatch_frame, ack_frame]
   \<and> heartbeat_payload (ws_run (constructor ''tok'' ''linux'' None)
       [SocketMessage True (Some dispatch_frame), SocketMessage True (Some ack_frame)])
       = JObj [(''op'', JNum 1)]"
  by (simp add: ws_defs dispatch_frame_def ack_frame_def)

text \<open>
  C7, amended. After any run of events, the stored sequence is the \<open>s\<close> field of the
  last inbound frame handled (\<open>undefined\<close> when that frame has none: the earlier value
  is lost), and the next heartbeat frame, sent when the socket is OPEN, carries exactly
  the stored value.
\<close>

theorem sequence_of_last_frame:
  "get_prop (Some m) ''s'' = Inr v \<and> (\<forall>ev \<in> set evs'. \<not> is_message ev) \<Longrightarrow>
     sequence (ws_run s (evs @ [SocketMessage c (Some m)] @ evs')) = v
     \<and> heartbeat_payload (ws_run s (evs @ [SocketMessage c (Some m)] @ evs'))
         = JObj (js_object [(''op'', Some (JNum 1)), (''d'', v)])
     \<and> (\<forall>sock. ws (ws_run s (evs @ [SocketMessage c (Some m)] @ evs')) = Some sock
                 \<and> readyState sock = OPEN \<longrightarrow>
          ws (ws_step (ws_run s (evs @ [SocketMessage c (Some m)] @ evs')) HeartbeatTick)
            = Some (sock\<lparr>outbox := outbox sock
                          @ [JObj (js_object [(''op'', Some (JNum 1)), (''d'', v)])]\<rparr>))"
proof -
  assume a: "get_prop (Some m) ''s'' = Inr v \<and> (\<forall>ev \<in> set evs'. \<not> is_message ev)"
  let ?s = "ws_run s (evs @ [SocketMessage c (Some m)] @ evs')"
  have "?s = ws_run (ws_step (ws_run s evs) (SocketMessage c (Some m))) evs'"
    by (simp add: ws_run_def)
  with a have sq: "sequence ?s = v"
    by (simp add: run_keeps_sequence message_sets_sequence del: ws_step.simps)
  then show ?thesis
    by (auto simp: heartbeat_payload_def heartbeat_callback_def send_def)
qed

theorem sequence_of_last_frame_witness:
  "sequence (ws_run (constructor ''tok'' ''linux'' None)
      ([CallConnect, SocketOpen True, SocketMessage True (Some hello_frame)]
       @ [SocketMessage True (Some dispatch_frame)] @ [CallSend (JObj [])])) = Some (JNum 5)
   \<and> map_option (\<lambda>sock. last (outbox sock))
        (ws (ws_step (ws_run (constructor ''tok'' ''linux'' None)
               ([CallConnect, SocketOpen True, SocketMessage True (Some hello_frame)]
                @ [SocketMessage True (Some dispatch_frame)] @ [CallSend (JObj [])]))
             HeartbeatTick))
       = Some (JObj [(''op'', JNum 1), (''d'', JNum 5)])"
proof -
  let ?s = "ws_run (constructor ''tok'' ''linux'' None)
              ([CallConnect, SocketOpen True, SocketMessage True (Some hello_frame)]
               @ [SocketMessage True (Some dispatch_frame)] @ [CallSend (JObj [])])"
  have h: "get_prop (Some dispatch_frame) ''s'' = Inr (Some (JNum 5))
           \<and> (\<forall>ev \<in> set [CallSend (JObj [])]. \<not> is_message ev)"
    by (simp add: dispatch_frame_def)
  have o: "\<exists>sock. ws ?s = Some sock \<and> readyState sock = OPEN"
    by (simp add: ws_defs hello_frame_def dispatch_frame_def)
  from sequence_of_last_frame [OF h, of "constructor ''tok'' ''linux'' None"
         "[CallConnect, SocketOpen True, SocketMessage True (Some hello_frame)]" True] o
  show ?thesis by (auto simp del: ws_step.simps)
qed

section \<open>Properties of the route key\<close>

lemma replace_all_same: "replace_all pat pat s = s"
proof (induction s rule: length_induct)
  case (1 s)
  show ?case
  proof (cases s)
    case Nil
    then show ?thesis by simp
  next
    case (Cons c cs)
    show ?thesis
    proof (cases "pat \<noteq> [] \<and> prefix pat (c # cs)")
      case True
      then obtain zs where zs: "c # cs = pat @ zs" by (auto simp: prefix_def)
      with True have d: "drop (length pat - 1) cs = zs"
        by (cases pat) auto
      have "length zs < length s" using zs True Cons by (cases pat) auto
      with 1 have r: "replace_all pat pat zs = zs" by blast
      have "replace_all pat pat (c # cs) = pat @ replace_all pat pat (drop (length pat - 1) cs)"
        using True by simp
      also have "\<dots> = pat @ zs" using d r by simp
      finally show ?thesis using zs Cons by simp
    next
      case False
      have "length cs < length s" using Cons by simp
      with 1 have "replace_all pat pat cs = cs" by blast
      with False Cons show ?thesis by auto
    qed
  qed
qed

lemma split_path_not_Nil: "split_path e \<noteq> []"
  by (induction e) (auto split: list.splits)

lemma join_split: "join_path (split_path e) = e"
proof (induction e)
  case Nil
  then show ?case by simp
next
  case (Cons c cs)
  then show ?case
    using split_path_not_Nil [of cs]
    by (cases "split_path cs"; cases "tl (split_path cs)") auto
qed


lemma split_path_no_slash: "seg \<in> set (split_path e) \<Longrightarrow> CHR ''/'' \<notin> set seg"
proof (induction e arbitrary: seg)
  case Nil
  then show ?case by simp
next
  case (Cons c cs)
  then show ?case
    using split_path_not_Nil [of cs]
    by (cases "split_path cs") (auto split: if_splits)
qed

lemma join_path_tail: "join_path (first # segs) = first @ tail_path segs"
  by (induction segs arbitrary: first) (simp_all add: tail_path_def)

lemma slash_not_digit: "\<not> is_digit CHR ''/''"
  by (simp add: is_digit_def)

lemma replace_ids_plain:
  "CHR ''/'' \<notin> set xs \<Longrightarrow> replace_ids (xs @ rest) = xs @ replace_ids rest"
  by (induction xs) auto

lemma tail_path_start: "tail_path segs = [] \<or> hd (tail_path segs) = CHR ''/''"
  by (cases segs) (simp_all add: tail_path_def)

lemma dropWhile_digits_tail:
  "list_all is_digit seg \<Longrightarrow> dropWhile is_digit (seg @ tail_path segs) = tail_path segs"
proof -
  assume a: "list_all is_digit seg"
  have t: "dropWhile is_digit (tail_path segs) = tail_path segs"
    using tail_path_start [of segs] slash_not_digit
    by (cases "tail_path segs") auto
  from a have "dropWhile is_digit (seg @ tail_path segs) = dropWhile is_digit (tail_path segs)"
    by (simp add: list_all_iff)
  with t show ?thesis by simp
qed

lemma replace_ids_tail:
  "\<forall>seg \<in> set segs. CHR ''/'' \<notin> set seg
      \<and> (seg = [] \<or> \<not> is_digit (hd seg) \<or> list_all is_digit seg) \<Longrightarrow>
   replace_ids (tail_path segs) = tail_path (map placeholder segs)"
proof (induction segs)
  case Nil
  then show ?case by (simp add: tail_path_def)
next
  case (Cons seg segs)
  then have ih: "replace_ids (tail_path segs) = tail_path (map placeholder segs)"
    and ns: "CHR ''/'' \<notin> set seg"
    and sh: "seg = [] \<or> \<not> is_digit (hd seg) \<or> list_all is_digit seg"
    by simp_all
  have unfold: "tail_path (seg # segs) = CHR ''/'' # seg @ tail_path segs"
    "tail_path (map placeholder (seg # segs))
       = CHR ''/'' # placeholder seg @ tail_path (map placeholder segs)"
    by (simp_all add: tail_path_def)
  show ?case
  proof (cases "seg = []")
    case True
    then have p: "placeholder seg = []" by (simp add: placeholder_def is_numeric_def)
    have "replace_ids (CHR ''/'' # tail_path segs) = CHR ''/'' # replace_ids (tail_path segs)"
      using tail_path_start [of segs] slash_not_digit
      by (cases "tail_path segs") auto
    with True p ih unfold show ?thesis by simp
  next
    case False
    show ?thesis
    proof (cases "is_digit (hd seg)")
      case True
      with sh False have all: "list_all is_digit seg" by simp
      with False have "placeholder seg = ''{id}''" by (simp add: placeholder_def is_numeric_def)
      moreover have "replace_ids (CHR ''/'' # seg @ tail_path segs)
                       = ''/{id}'' @ replace_ids (dropWhile is_digit (seg @ tail_path segs))"
        using False True by (cases seg) simp_all
      ultimately show ?thesis
        using ih unfold dropWhile_digits_tail [OF all, of segs] by simp
    next
      case nd: False
      with False have "\<not> list_all is_digit seg" by (cases seg) auto
      then have "placeholder seg = seg" by (simp add: placeholder_def is_numeric_def)
      moreover have "replace_ids (CHR ''/'' # seg @ tail_path segs)
                       = CHR ''/'' # replace_ids (seg @ tail_path segs)"
        using False nd by (cases seg) simp_all
      ultimately show ?thesis
        using ih unfold replace_ids_plain [OF ns, of "tail_path segs"] by simp
    qed
  qed
qed

lemma replace_ids_whole: "whole_ids e \<Longrightarrow> replace_ids e = join_path (map placeholder (split_path e))"
proof -
  assume w: "whole_ids e"
  obtain first segs where sp: "split_path e = first # segs"
    using split_path_not_Nil [of e] by (cases "split_path e") auto
  from w sp have nf: "\<not> is_numeric first"
    and sh: "list_all (\<lambda>seg. seg = [] \<or> \<not> is_digit (hd seg) \<or> list_all is_digit seg) segs"
    by (simp_all add: whole_ids_def)
  have ns: "\<forall>seg \<in> set (first # segs). CHR ''/'' \<notin> set seg"
    using split_path_no_slash [of _ e] sp by auto
  have e: "e = first @ tail_path segs"
    using join_split [of e] sp join_path_tail by simp
  have "replace_ids e = first @ replace_ids (tail_path segs)"
    using e ns replace_ids_plain [of first "tail_path segs"] by simp
  also have "replace_ids (tail_path segs) = tail_path (map placeholder segs)"
    using ns sh by (intro replace_ids_tail) (auto simp: list_all_iff)
  also have "first @ tail_path (map placeholder segs) = join_path (map placeholder (split_path e))"
    using sp nf join_path_tail [of first "map placeholder segs"] by (simp add: placeholder_def)
  finally show ?thesis .
qed

lemma dropWhile_append_stop:
  "ys = [] \<or> \<not> P (hd ys) \<Longrightarrow> dropWhile P (xs @ ys) = dropWhile P xs @ ys"
  by (induction xs) (auto simp: dropWhile_eq_self_iff)

lemma replace_ids_append:
  "rest = [] \<or> \<not> is_digit (hd rest) \<Longrightarrow>
     replace_ids (pre @ rest) = replace_ids pre @ replace_ids rest"
proof (induction pre rule: replace_ids.induct)
  case 1
  then show ?case by simp
next
  case (2 c cs)
  show ?case
  proof (cases "c = CHR ''/'' \<and> cs \<noteq> [] \<and> is_digit (hd cs)")
    case True
    then have "replace_ids ((c # cs) @ rest)
                 = ''/{id}'' @ replace_ids (dropWhile is_digit (cs @ rest))"
      by simp
    also have "dropWhile is_digit (cs @ rest) = dropWhile is_digit cs @ rest"
      using "2.prems" by (rule dropWhile_append_stop)
    also have "replace_ids (dropWhile is_digit cs @ rest)
                 = replace_ids (dropWhile is_digit cs) @ replace_ids rest"
      using True "2.prems" "2.IH"(1) by simp
    finally show ?thesis using True by simp
  next
    case False
    then have ih: "replace_ids (cs @ rest) = replace_ids cs @ replace_ids rest"
      using "2.prems" "2.IH"(2) by simp
    show ?thesis
    proof (cases "cs = []")
      case True
      with "2.prems" show ?thesis by (cases rest) auto
    next
      case nonempty: False
      with False ih show ?thesis by (cases cs) auto
    qed
  qed
qed

lemma replace_ids_numeric:
  "is_numeric d \<Longrightarrow> suf = [] \<or> \<not> is_digit (hd suf) \<Longrightarrow>
     replace_ids (CHR ''/'' # d @ suf) = ''/{id}'' @ replace_ids suf"
proof -
  assume n: "is_numeric d" and s: "suf = [] \<or> \<not> is_digit (hd suf)"
  from n have d: "d \<noteq> []" "is_digit (hd d)" "\<forall>x \<in> set d. is_digit x"
    by (cases d; simp add: is_numeric_def list_all_iff)+
  have "dropWhile is_digit (d @ suf) = dropWhile is_digit d @ suf"
    using s by (rule dropWhile_append_stop)
  also have "dropWhile is_digit d = []" using d(3) by simp
  finally have "dropWhile is_digit (d @ suf) = suf" by simp
  with d show ?thesis by (cases d) simp_all
qed

lemma replace_ids_same_key:
  "is_numeric d1 \<Longrightarrow> is_numeric d2 \<Longrightarrow> suf = [] \<or> \<not> is_digit (hd suf) \<Longrightarrow>
     replace_ids (pre @ CHR ''/'' # d1 @ suf) = replace_ids (pre @ CHR ''/'' # d2 @ suf)"
proof -
  assume a: "is_numeric d1" "is_numeric d2" "suf = [] \<or> \<not> is_digit (hd suf)"
  have "replace_ids (pre @ CHR ''/'' # d @ suf) = replace_ids pre @ replace_ids (CHR ''/'' # d @ suf)" for d
    using slash_not_digit by (intro replace_ids_append) simp
  with a show ?thesis by (simp add: replace_ids_numeric del: replace_ids.simps)
qed

text \<open>
  The claim C8 as it is stated fails: a segment that starts with digits and goes on
  with other characters is altered, its leading digits replaced by the placeholder.
  The endpoint is the one \<open>react\<close> builds for the keycap emoji 1 on message 2 of
  channel 1.
\<close>

theorem route_key_counterexample:
  "getRouteKey ''/channels/1/messages/2/reactions/1%EF%B8%8F%E2%83%A3/@me'' ''put''
     = ''PUT:/channels/{id}/messages/{id}/reactions/{id}%EF%B8%8F%E2%83%A3/@me''
   \<and> spec_route_key ''/channels/1/messages/2/reactions/1%EF%B8%8F%E2%83%A3/@me'' ''put''
     = ''PUT:/channels/{id}/messages/{id}/reactions/1%EF%B8%8F%E2%83%A3/@me''
   \<and> getRouteKey ''/channels/1/messages/2/reactions/1%EF%B8%8F%E2%83%A3/@me'' ''put''
     \<noteq> spec_route_key ''/channels/1/messages/2/reactions/1%EF%B8%8F%E2%83%A3/@me'' ''put''"
  by (simp add: getRouteKey_def spec_route_key_def toUpperCase_def upper_char_def is_digit_def
                placeholder_def is_numeric_def)

text \<open>
  C8, amended. For every method and every endpoint whose numeric identifiers are whole
  segments (a segment after a slash that starts with a digit has only digits, and the
  text before the first slash is not a number), the route key is the method in upper
  case, a colon, and the path with each pure numeric segment replaced by the
  placeholder and nothing else altered. And for every endpoint, replacing one pure
  numeric segment by another gives the same route key.
\<close>

theorem route_key_whole_ids:
  "(whole_ids ep \<longrightarrow> getRouteKey ep meth = spec_route_key ep meth)
   \<and> (is_numeric d1 \<and> is_numeric d2 \<and> (suf = [] \<or> \<not> is_digit (hd suf)) \<longrightarrow>
        getRouteKey (pre @ CHR ''/'' # d1 @ suf) meth = getRouteKey (pre @ CHR ''/'' # d2 @ suf) meth)"
  by (simp add: getRouteKey_def spec_route_key_def replace_all_same replace_ids_whole
                replace_ids_same_key del: replace_ids.simps)

theorem route_key_whole_ids_witness:
  "getRouteKey ''/channels/123/messages/456'' ''get'' = ''GET:/channels/{id}/messages/{id}''
   \<and> getRouteKey (''/channels'' @ CHR ''/'' # ''123'' @ ''/messages?limit=5'') ''get''
     = getRouteKey (''/channels'' @ CHR ''/'' # ''98765'' @ ''/messages?limit=5'') ''get''"
  using route_key_whole_ids [of "''/channels/123/messages/456''" "''get''" "''123''" "''98765''"
          "''/messages?limit=5''" "''/channels''"]
  by (simp add: whole_ids_def spec_route_key_def toUpperCase_def upper_char_def is_digit_def
                placeholder_def is_numeric_def)

section \<open>Properties of the request scheduler\<close>

lemma executed_append: "executed (as @ bs) = executed as @ executed bs"
  by (induction as rule: executed.induct) auto

lemma submitted_append: "submitted (evs @ evs') = submitted evs @ submitted evs'"
  by (induction evs rule: submitted.induct) auto

lemma single_flight_append: "single_flight (as @ bs) = foldl monitor_step (single_flight as) bs"
  by (simp add: single_flight_def)

lemma log_simps:
  "trace (log_action a s) = trace s @ [a]" "control (log_action a s) = control s"
  "requestQueue (log_action a s) = requestQueue s" "processingQueue (log_action a s) = processingQueue s"
  "rateLimits (log_action a s) = rateLimits s" "globalRateLimit (log_action a s) = globalRateLimit s"
  by (simp_all add: log_action_def)

lemma sleep_simps:
  "trace (sleep ms k s) = trace s @ [Sleep ms]" "control (sleep ms k s) = k"
  "requestQueue (sleep ms k s) = requestQueue s" "processingQueue (sleep ms k s) = processingQueue s"
  "rateLimits (sleep ms k s) = rateLimits s" "globalRateLimit (sleep ms k s) = globalRateLimit s"
  by (simp_all add: sleep_def log_action_def)

lemma update_simps:
  "trace (updateRateLimits now ep m r s) = trace s"
  "control (updateRateLimits now ep m r s) = control s"
  "requestQueue (updateRateLimits now ep m r s) = requestQueue s"
  "processingQueue (updateRateLimits now ep m r s) = processingQueue s"
  "globalRateLimit (updateRateLimits now ep m r s) = globalRateLimit s"
  by (simp_all add: updateRateLimits_def cleanupRateLimits_def Let_def)

lemma good_returned: "executing q subs s \<Longrightarrow> good subs (returned q r s)"
  by (simp add: executing_def good_def returned_def sleep_simps log_simps single_flight_append
                monitor_step_def executed_append)

lemma good_makeRequest_loop: "executing q subs s \<Longrightarrow> good subs (makeRequest_loop q a s)"
  by (cases "a < maxRetries")
     (simp_all add: makeRequest_loop_def good_returned,
      simp add: executing_def good_def log_simps single_flight_append monitor_step_def executed_append)

lemma good_makeRequest:
  "single_flight (trace s) = Some (None, False) \<Longrightarrow> processingQueue s \<Longrightarrow>
     good (executed (trace s) @ q # requestQueue s) (makeRequest q s)"
  unfolding makeRequest_def
  by (rule good_makeRequest_loop)
     (simp add: executing_def log_simps single_flight_append monitor_step_def executed_append)

lemma good_dequeue: "between subs s \<Longrightarrow> good subs (dequeue now s)"
proof (cases "requestQueue s")
  case Nil
  assume "between subs s"
  with Nil show ?thesis by (simp add: between_def good_def dequeue_def)
next
  case (Cons q rest)
  assume b: "between subs s"
  let ?s1 = "s\<lparr>requestQueue := rest\<rparr>"
  have m: "good subs (makeRequest q ?s1)"
    using good_makeRequest [of ?s1 q] b Cons by (simp add: between_def)
  have w: "good subs (sleep ms (RouteWait q) ?s1)" for ms
    using b Cons
    by (simp add: between_def good_def sleep_simps single_flight_append monitor_step_def executed_append)
  show ?thesis
    using Cons m w by (simp add: dequeue_def Let_def split: option.splits)
qed

lemma good_processLoop: "between subs s \<Longrightarrow> good subs (processLoop now s)"
proof -
  assume b: "between subs s"
  have e: "requestQueue s = [] \<Longrightarrow> good subs (s\<lparr>processingQueue := False, control := Idle\<rparr>)"
    using b by (simp add: between_def good_def)
  have w: "good subs (sleep ms GlobalWait s)" for ms
    using b
    by (simp add: between_def good_def sleep_simps single_flight_append monitor_step_def executed_append)
  show ?thesis
    using e w good_dequeue [OF b] by (simp add: processLoop_def split: option.splits)
qed

lemma good_thrown: "executing q subs s \<Longrightarrow> good subs (thrown now q e s)"
  unfolding thrown_def
  by (rule good_processLoop)
     (simp add: executing_def between_def log_simps single_flight_append monitor_step_def executed_append)

lemma good_catch_block: "executing q subs s \<Longrightarrow> good subs (catch_block now q a e s)"
  by (cases "a = maxRetries - 1")
     (simp_all add: catch_block_def good_thrown,
      simp add: executing_def good_def sleep_simps single_flight_append monitor_step_def executed_append)

lemma executing_update:
  "executing q subs s \<Longrightarrow> executing q subs (updateRateLimits now ep m r s)"
  by (simp add: executing_def update_simps)

lemma good_on_response: "executing q subs s \<Longrightarrow> good subs (on_response now q a r s)"
proof -
  assume "executing q subs s"
  then have x: "executing q subs (updateRateLimits now (endpoint q) (method_or_get (opts q)) r s)"
    by (rule executing_update)
  have w: "executing q subs s' \<Longrightarrow> good subs (sleep ms (RateLimitWait q a) s')" for s' ms
    by (simp add: executing_def good_def sleep_simps single_flight_append monitor_step_def executed_append)
  have g: "executing q subs s' \<Longrightarrow> executing q subs (s'\<lparr>globalRateLimit := v\<rparr>)" for s' v
    by (simp add: executing_def)
  show ?thesis
    using x w g good_catch_block good_returned
    by (simp add: on_response_def Let_def split: option.splits sum.splits)
qed


lemma good_request:
  "good subs s \<Longrightarrow>
     good (subs @ [\<lparr>endpoint = ep, opts = os, promise = p, timestamp = now\<rparr>]) (request now ep os p s)"
proof (cases "processingQueue s")
  case True
  assume "good subs s"
  with True show ?thesis by (simp add: good_def request_def processQueue_def)
next
  case False
  assume g: "good subs s"
  let ?q = "\<lparr>endpoint = ep, opts = os, promise = p, timestamp = now\<rparr>"
  let ?s1 = "s\<lparr>requestQueue := requestQueue s @ [?q], processingQueue := True\<rparr>"
  from g False have "between (subs @ [?q]) ?s1"
    by (auto simp: good_def between_def)
  then have "good (subs @ [?q]) (processLoop now ?s1)" by (rule good_processLoop)
  with False show ?thesis by (simp add: request_def processQueue_def)
qed

lemma good_timer: "good subs s \<Longrightarrow> good subs (rest_step s (TimerFired now))"
proof (cases "control s")
  case GlobalWait
  assume g: "good subs s"
  with GlobalWait have "between subs (s\<lparr>globalRateLimit := None\<rparr>)"
    by (auto simp: good_def between_def)
  then show ?thesis using GlobalWait by (simp add: good_dequeue)
next
  case (RouteWait q)
  assume g: "good subs s"
  with RouteWait good_makeRequest [of s q] show ?thesis
    by (auto simp: good_def)
next
  case (RateLimitWait q a)
  assume g: "good subs s"
  with RateLimitWait have "executing q subs s" by (auto simp: good_def executing_def)
  then show ?thesis using RateLimitWait by (simp add: good_makeRequest_loop)
next
  case (Backoff q a)
  assume g: "good subs s"
  with Backoff have "executing q subs s" by (auto simp: good_def executing_def)
  then show ?thesis using Backoff by (simp add: good_makeRequest_loop)
next
  case Courtesy
  assume g: "good subs s"
  with Courtesy have "between subs s" by (auto simp: good_def between_def)
  then show ?thesis using Courtesy by (simp add: good_processLoop)
qed simp_all

lemma good_fetch_done: "good subs s \<Longrightarrow> good subs (rest_step s (FetchDone now result))"
proof (cases "control s")
  case (Fetching q a)
  assume g: "good subs s"
  with Fetching have "executing q subs (log_action FetchSettled s)"
    by (auto simp: good_def executing_def log_simps single_flight_append monitor_step_def executed_append)
  then show ?thesis
    using Fetching by (cases result) (simp_all add: good_catch_block good_on_response)
qed simp_all

lemma good_step: "good subs s \<Longrightarrow> good (subs @ submitted [ev]) (rest_step s ev)"
proof (cases ev)
  case (Request now ep os p)
  assume "good subs s"
  with Request show ?thesis by (simp add: good_request)
next
  case (TimerFired now)
  assume "good subs s"
  then have "good subs (rest_step s (TimerFired now))" by (rule good_timer)
  with TimerFired show ?thesis by simp
next
  case (FetchDone now result)
  assume "good subs s"
  then have "good subs (rest_step s (FetchDone now result))" by (rule good_fetch_done)
  with FetchDone show ?thesis by simp
qed

lemma good_run: "good subs s \<Longrightarrow> good (subs @ submitted evs) (rest_run s evs)"
proof (induction evs arbitrary: subs s)
  case Nil
  then show ?case by (simp add: rest_run_def)
next
  case (Cons ev evs)
  from Cons.prems have "good (subs @ submitted [ev]) (rest_step s ev)" by (rule good_step)
  from Cons.IH [OF this] show ?case
    using submitted_append [of "[ev]" evs] by (simp add: rest_run_def)
qed

lemma good_constructor: "good [] rest_constructor"
  by (simp add: good_def rest_constructor_def single_flight_def)

lemmas rest_defs =
  rest_run_def rest_constructor_def request_def processQueue_def processLoop_def dequeue_def
  makeRequest_def makeRequest_loop_def maxRetries_def returned_def thrown_def catch_block_def
  on_response_def updateRateLimits_def cleanupRateLimits_def sleep_def log_action_def
  ok_def method_or_get_def DiscordAPIError_def error_text_def now_num_def
  js_less_def js_le_def js_plus_def js_minus_def js_times_def
  getRouteKey_def toUpperCase_def upper_char_def is_digit_def

text \<open>
  C1. For every sequence of events, the requests executed so far are an initial part of
  the requests submitted, in the order of submission; the whole trace passes the
  single-flight monitor: no execution starts before the earlier request is resolved or
  rejected, and no HTTP call starts while another is in flight; and once the scheduler
  has stopped, every submitted request has been executed.
\<close>

theorem fifo_single_flight:
  "prefix (executed (trace (rest_run rest_constructor evs))) (submitted evs)
   \<and> single_flight (trace (rest_run rest_constructor evs)) \<noteq> None
   \<and> (\<not> processingQueue (rest_run rest_constructor evs) \<longrightarrow>
        executed (trace (rest_run rest_constructor evs)) = submitted evs)"
proof -
  have "good (submitted evs) (rest_run rest_constructor evs)"
    using good_run [OF good_constructor, of evs] by simp
  then have e: "executed (trace (rest_run rest_constructor evs))
                  @ (pending (control (rest_run rest_constructor evs))
                     @ requestQueue (rest_run rest_constructor evs)) = submitted evs"
    and f: "single_flight (trace (rest_run rest_constructor evs)) \<noteq> None"
    and i: "\<not> processingQueue (rest_run rest_constructor evs) \<longrightarrow>
              control (rest_run rest_constructor evs) = Idle
              \<and> requestQueue (rest_run rest_constructor evs) = []"
    by (simp_all add: good_def)
  from e have "prefix (executed (trace (rest_run rest_constructor evs))) (submitted evs)"
    by (metis prefixI)
  moreover from e i have "\<not> processingQueue (rest_run rest_constructor evs) \<longrightarrow>
        executed (trace (rest_run rest_constructor evs)) = submitted evs"
    by auto
  ultimately show ?thesis using f by simp
qed

theorem fifo_single_flight_witness:
  "executed (trace (rest_run rest_constructor two_requests)) = [get_channel, post_message]
   \<and> submitted two_requests = [get_channel, post_message]
   \<and> single_flight (trace (rest_run rest_constructor two_requests)) = Some (None, False)
   \<and> \<not> processingQueue (rest_run rest_constructor two_requests)"
  using fifo_single_flight [of two_requests]
  by (simp add: rest_defs plain_response_def get_channel_def post_message_def two_requests_def single_flight_def monitor_step_def)

lemma on_response_429:
  "status r = 429 \<Longrightarrow>
     trace (on_response now q a r s) = trace s @ [Sleep (js_times (retry_after r) (Some 1000))]
     \<and> control (on_response now q a r s) = RateLimitWait q a"
  by (simp add: on_response_def Let_def sleep_simps update_simps)

lemma fetch_done_429:
  "control s = Fetching q a \<Longrightarrow> status r = 429 \<Longrightarrow>
     trace (rest_step s (FetchDone now (Inr r)))
       = trace s @ [FetchSettled, Sleep (js_times (retry_after r) (Some 1000))]
     \<and> control (rest_step s (FetchDone now (Inr r))) = RateLimitWait q a"
  by (simp add: on_response_429 log_simps)

lemma timer_rate_limit_wait:
  "control s = RateLimitWait q a \<Longrightarrow>
     (Suc a < maxRetries \<longrightarrow>
        trace (rest_step s (TimerFired now)) = trace s @ [Fetch q (Suc a)]
        \<and> control (rest_step s (TimerFired now)) = Fetching q (Suc a))
     \<and> (\<not> Suc a < maxRetries \<longrightarrow>
        trace (rest_step s (TimerFired now)) = trace s @ [Resolve q Undefined, Sleep (Some 100)]
        \<and> control (rest_step s (TimerFired now)) = Courtesy)"
  by (simp add: makeRequest_loop_def returned_def sleep_simps log_simps)

text \<open>
  The claim C2 as it is stated fails: after three rate-limited responses and their
  waits there is no fourth HTTP call; the call is over.
\<close>

theorem rate_limit_retries_counterexample:
  "trace (rest_run rest_constructor three_rate_limits)
     = [Execute get_channel, Fetch get_channel 0, FetchSettled, Sleep (Some 1000),
        Fetch get_channel 1, FetchSettled, Sleep (Some 2000),
        Fetch get_channel 2, FetchSettled, Sleep (Some 1000),
        Resolve get_channel Undefined, Sleep (Some 100)]
   \<and> control (rest_run rest_constructor three_rate_limits) = Idle"
  by (simp add: rest_defs plain_response_def rate_limited_def get_channel_def three_rate_limits_def)

text \<open>
  C2, amended. A rate-limited (429) response causes a wait of the server-provided
  retry-after duration (its seconds times 1000), and the wait consumes one of the 3
  attempts: the retry follows, with the next attempt index, only while that index is
  below 3; after the third attempt no further HTTP call of the request is made.
\<close>

theorem rate_limit_consumes_attempt:
  "control s = Fetching q a \<and> status r = 429 \<Longrightarrow>
     trace (rest_step s (FetchDone now (Inr r)))
       = trace s @ [FetchSettled, Sleep (js_times (retry_after r) (Some 1000))]
     \<and> control (rest_step s (FetchDone now (Inr r))) = RateLimitWait q a
     \<and> (Suc a < 3 \<longrightarrow>
          trace (rest_step (rest_step s (FetchDone now (Inr r))) (TimerFired now'))
            = trace s @ [FetchSettled, Sleep (js_times (retry_after r) (Some 1000)), Fetch q (Suc a)]
          \<and> control (rest_step (rest_step s (FetchDone now (Inr r))) (TimerFired now'))
            = Fetching q (Suc a))
     \<and> (\<not> Suc a < 3 \<longrightarrow>
          (\<forall>a'. control (rest_step (rest_step s (FetchDone now (Inr r))) (TimerFired now'))
                  \<noteq> Fetching q a'))"
proof -
  assume h: "control s = Fetching q a \<and> status r = 429"
  let ?s1 = "rest_step s (FetchDone now (Inr r))"
  from h have f: "trace ?s1 = trace s @ [FetchSettled, Sleep (js_times (retry_after r) (Some 1000))]"
    "control ?s1 = RateLimitWait q a"
    using fetch_done_429 [of s q a r now] by simp_all
  from timer_rate_limit_wait [OF f(2), of now'] f show ?thesis
    by (simp add: maxRetries_def)
qed

theorem rate_limit_consumes_attempt_witness:
  "trace (rest_step (rest_step (rest_run rest_constructor
             [Request 0 ''/channels/1'' \<lparr>http_method = None, body = None\<rparr> 0])
           (FetchDone 40 (Inr (rate_limited 1)))) (TimerFired 1040))
     = [Execute get_channel, Fetch get_channel 0, FetchSettled, Sleep (Some 1000),
        Fetch get_channel 1]"
  using rate_limit_consumes_attempt [of
          "rest_run rest_constructor [Request 0 ''/channels/1'' \<lparr>http_method = None, body = None\<rparr> 0]"
          get_channel 0 "rate_limited 1" 40 1040]
  by (simp add: rest_defs plain_response_def rate_limited_def get_channel_def)

text \<open>
  C9. If the three attempts of \<open>makeRequest\<close> all get a rate-limited (429) response,
  the loop ends after the third wait without a throw and without a value: the caller's
  promise is resolved with \<open>undefined\<close>, not rejected.
\<close>

theorem three_rate_limits_resolve_undefined:
  "control s = Fetching q 0 \<and> status r1 = 429 \<and> status r2 = 429 \<and> status r3 = 429 \<Longrightarrow>
     trace (rest_run s [FetchDone t1 (Inr r1), TimerFired t2, FetchDone t3 (Inr r2), TimerFired t4,
                        FetchDone t5 (Inr r3), TimerFired t6])
       = trace s @ [FetchSettled, Sleep (js_times (retry_after r1) (Some 1000)), Fetch q 1,
                    FetchSettled, Sleep (js_times (retry_after r2) (Some 1000)), Fetch q 2,
                    FetchSettled, Sleep (js_times (retry_after r3) (Some 1000)),
                    Resolve q Undefined, Sleep (Some 100)]
     \<and> control (rest_run s [FetchDone t1 (Inr r1), TimerFired t2, FetchDone t3 (Inr r2),
                            TimerFired t4, FetchDone t5 (Inr r3), TimerFired t6]) = Courtesy"
proof -
  assume h: "control s = Fetching q 0 \<and> status r1 = 429 \<and> status r2 = 429 \<and> status r3 = 429"
  let ?s1 = "rest_step s (FetchDone t1 (Inr r1))"
  let ?s2 = "rest_step ?s1 (TimerFired t2)"
  let ?s3 = "rest_step ?s2 (FetchDone t3 (Inr r2))"
  let ?s4 = "rest_step ?s3 (TimerFired t4)"
  let ?s5 = "rest_step ?s4 (FetchDone t5 (Inr r3))"
  let ?s6 = "rest_step ?s5 (TimerFired t6)"
  from h have c1: "control ?s1 = RateLimitWait q 0"
    and t1: "trace ?s1 = trace s @ [FetchSettled, Sleep (js_times (retry_after r1) (Some 1000))]"
    using fetch_done_429 [of s q 0 r1 t1] by simp_all
  from timer_rate_limit_wait [OF c1, of t2] have c2: "control ?s2 = Fetching q 1"
    and t2: "trace ?s2 = trace ?s1 @ [Fetch q 1]"
    by (simp_all add: maxRetries_def)
  from h c2 have c3: "control ?s3 = RateLimitWait q 1"
    and t3: "trace ?s3 = trace ?s2 @ [FetchSettled, Sleep (js_times (retry_after r2) (Some 1000))]"
    using fetch_done_429 [of ?s2 q 1 r2 t3] by simp_all
  from timer_rate_limit_wait [OF c3, of t4] have c4: "control ?s4 = Fetching q 2"
    and t4: "trace ?s4 = trace ?s3 @ [Fetch q 2]"
    by (simp_all add: maxRetries_def numeral_2_eq_2)
  from h c4 have c5: "control ?s5 = RateLimitWait q 2"
    and t5: "trace ?s5 = trace ?s4 @ [FetchSettled, Sleep (js_times (retry_after r3) (Some 1000))]"
    using fetch_done_429 [of ?s4 q 2 r3 t5] by simp_all
  from timer_rate_limit_wait [OF c5, of t6] have c6: "control ?s6 = Courtesy"
    and t6: "trace ?s6 = trace ?s5 @ [Resolve q Undefined, Sleep (Some 100)]"
    by (simp_all add: maxRetries_def)
  have "rest_run s [FetchDone t1 (Inr r1), TimerFired t2, FetchDone t3 (Inr r2), TimerFired t4,
                    FetchDone t5 (Inr r3), TimerFired t6] = ?s6"
    by (simp add: rest_run_def del: rest_step.simps)
  with c6 t1 t2 t3 t4 t5 t6 show ?thesis by (simp del: rest_step.simps)
qed

theorem three_rate_limits_resolve_undefined_witness:
  "trace (rest_run (rest_run rest_constructor
             [Request 0 ''/channels/1'' \<lparr>http_method = None, body = None\<rparr> 0])
           [FetchDone 40 (Inr (rate_limited 1)), TimerFired 1040,
            FetchDone 1080 (Inr (rate_limited 2)), TimerFired 3080,
            FetchDone 3120 (Inr (rate_limited 1)), TimerFired 4120])
     = [Execute get_channel, Fetch get_channel 0, FetchSettled, Sleep (Some 1000),
        Fetch get_channel 1, FetchSettled, Sleep (Some 2000),
        Fetch get_channel 2, FetchSettled, Sleep (Some 1000),
        Resolve get_channel Undefined, Sleep (Some 100)]"
  using three_rate_limits_resolve_undefined [of
          "rest_run rest_constructor [Request 0 ''/channels/1'' \<lparr>http_method = None, body = None\<rparr> 0]"
          get_channel "rate_limited 1" "rate_limited 2" "rate_limited 1" 40 1040 1080 3080 3120 4120]
  by (simp add: rest_defs plain_response_def rate_limited_def get_channel_def)

lemma get_prop_not_null: "b \<noteq> JNull \<Longrightarrow> \<exists>m. get_prop (Some b) k = Inr m"
  by (cases b) simp_all

lemma trace_makeRequest: "trace (makeRequest q s) = trace s @ [Execute q, Fetch q 0]"
  by (simp add: makeRequest_def makeRequest_loop_def maxRetries_def log_simps)

lemma trace_dequeue: "prefix (trace s) (trace (dequeue now s))"
  by (auto simp: dequeue_def Let_def trace_makeRequest sleep_simps split: list.splits option.splits)

lemma trace_processLoop: "prefix (trace s) (trace (processLoop now s))"
  by (auto simp: processLoop_def trace_dequeue sleep_simps split: option.splits)

lemma body_message_text:
  "b \<noteq> JNull \<Longrightarrow> json_body r = Some b \<Longrightarrow>
     \<exists>m. get_prop (Some b) ''message'' = Inr m \<and> error_text m = spec_body_message r"
  by (cases b) (auto simp: error_text_def spec_body_message_def split: option.splits json.splits)

lemma on_response_api_error:
  "status r \<noteq> 429 \<Longrightarrow> \<not> ok r \<Longrightarrow> json_body r \<noteq> Some JNull \<Longrightarrow>
     on_response now q a r s
       = catch_block now q a
           (ApiError \<lparr>error_name = ''DiscordAPIError'', error_message = spec_body_message r,
                      error_status = status r, error_path = endpoint q\<rparr>)
           (updateRateLimits now (endpoint q) (method_or_get (opts q)) r s)"
proof (cases "json_body r")
  case None
  assume "status r \<noteq> 429" "\<not> ok r"
  with None show ?thesis
    by (simp add: on_response_def spec_body_message_def DiscordAPIError_def error_text_def Let_def)
next
  case (Some b)
  assume a: "status r \<noteq> 429" "\<not> ok r" "json_body r \<noteq> Some JNull"
  with Some obtain m where "get_prop (Some b) ''message'' = Inr m"
    and "error_text m = spec_body_message r"
    using body_message_text [of b r] by auto
  with a Some show ?thesis by (simp add: on_response_def DiscordAPIError_def Let_def)
qed

text \<open>
  The claim C3 as it is stated fails: a 404 response on the first attempt does not
  reject the caller; the scheduler sleeps one second and calls \<open>fetch\<close> again.
\<close>

theorem api_error_counterexample:
  "trace (rest_run rest_constructor
      [Request 0 ''/channels/1'' \<lparr>http_method = None, body = None\<rparr> 0,
       FetchDone 40 (Inr unknown_channel), TimerFired 1040])
     = [Execute get_channel, Fetch get_channel 0, FetchSettled, Sleep (Some 1000),
        Fetch get_channel 1]
   \<and> control (rest_run rest_constructor
      [Request 0 ''/channels/1'' \<lparr>http_method = None, body = None\<rparr> 0,
       FetchDone 40 (Inr unknown_channel)]) = Backoff get_channel 0"
  by (simp add: rest_defs plain_response_def get_channel_def unknown_channel_def)

text \<open>
  C3, amended. A non-success, non-429 response whose body is not JSON \<open>null\<close> gives a
  DiscordAPIError whose status is the status code of the response, whose path is the
  requested endpoint and whose message is the message of the body (the placeholder
  when no body parses, the empty text when the body has no message). On the third
  attempt the caller is rejected with it at once, with no retry. On an earlier attempt
  the error is handled as any failure of an attempt: a wait of \<open>2 ^ attempt\<close>
  seconds, then the next attempt.
\<close>

theorem api_error_retried:
  "control s = Fetching q a \<and> status r \<noteq> 429 \<and> \<not> ok r \<and> json_body r \<noteq> Some JNull \<Longrightarrow>
     (a = 2 \<longrightarrow>
        prefix (trace s @ [FetchSettled,
                  Reject q (ApiError \<lparr>error_name = ''DiscordAPIError'',
                                       error_message = spec_body_message r,
                                       error_status = status r, error_path = endpoint q\<rparr>)])
               (trace (rest_step s (FetchDone now (Inr r)))))
     \<and> (a \<noteq> 2 \<longrightarrow>
          trace (rest_step s (FetchDone now (Inr r)))
            = trace s @ [FetchSettled, Sleep (Some (2 ^ a * 1000))]
          \<and> control (rest_step s (FetchDone now (Inr r))) = Backoff q a
          \<and> (Suc a < 3 \<longrightarrow>
               trace (rest_step (rest_step s (FetchDone now (Inr r))) (TimerFired now'))
                 = trace s @ [FetchSettled, Sleep (Some (2 ^ a * 1000)), Fetch q (Suc a)]))"
proof -
  assume h: "control s = Fetching q a \<and> status r \<noteq> 429 \<and> \<not> ok r \<and> json_body r \<noteq> Some JNull"
  let ?e = "ApiError \<lparr>error_name = ''DiscordAPIError'', error_message = spec_body_message r,
                      error_status = status r, error_path = endpoint q\<rparr>"
  let ?u = "updateRateLimits now (endpoint q) (method_or_get (opts q)) r (log_action FetchSettled s)"
  from h have st: "rest_step s (FetchDone now (Inr r)) = catch_block now q a ?e ?u"
    by (simp add: on_response_api_error)
  have tu: "trace ?u = trace s @ [FetchSettled]"
    by (simp add: update_simps log_simps)
  show ?thesis
  proof (cases "a = 2")
    case True
    have "prefix (trace (log_action (Reject q ?e) ?u)) (trace (processLoop now (log_action (Reject q ?e) ?u)))"
      by (rule trace_processLoop)
    with True st tu show ?thesis
      by (simp add: catch_block_def thrown_def maxRetries_def log_simps)
  next
    case False
    with st tu have 1: "trace (rest_step s (FetchDone now (Inr r)))
                          = trace s @ [FetchSettled, Sleep (Some (2 ^ a * 1000))]"
      and 2: "control (rest_step s (FetchDone now (Inr r))) = Backoff q a"
      by (simp_all add: catch_block_def maxRetries_def sleep_simps)
    from 2 have "Suc a < 3 \<longrightarrow>
        trace (rest_step (rest_step s (FetchDone now (Inr r))) (TimerFired now'))
          = trace (rest_step s (FetchDone now (Inr r))) @ [Fetch q (Suc a)]"
      by (simp add: makeRequest_loop_def maxRetries_def log_simps del: rest_step.simps(3))
    with False 1 2 show ?thesis by (simp del: rest_step.simps)
  qed
qed

theorem api_error_retried_witness:
  "prefix ([Execute get_channel, Fetch get_channel 0, FetchSettled, Sleep (Some 1000),
            Fetch get_channel 1, FetchSettled, Sleep (Some 2000), Fetch get_channel 2]
           @ [FetchSettled,
              Reject get_channel
                (ApiError \<lparr>error_name = ''DiscordAPIError'',
                           error_message = Text ''Unknown Channel'',
                           error_status = 404, error_path = ''/channels/1''\<rparr>)])
     (trace (rest_step
        (rest_run rest_constructor
           [Request 0 ''/channels/1'' \<lparr>http_method = None, body = None\<rparr> 0,
            FetchDone 40 (Inr unknown_channel), TimerFired 1040,
            FetchDone 1080 (Inr unknown_channel), TimerFired 3080])
        (FetchDone 3120 (Inr unknown_channel))))
   \<and> prefix ([Execute get_channel, Fetch get_channel 0, FetchSettled, Sleep (Some 1000),
            Fetch get_channel 1, FetchSettled, Sleep (Some 2000), Fetch get_channel 2]
           @ [FetchSettled,
              Reject get_channel
                (ApiError \<lparr>error_name = ''DiscordAPIError'', error_message = Text [],
                           error_status = 403, error_path = ''/channels/1''\<rparr>)])
     (trace (rest_step
        (rest_run rest_constructor
           [Request 0 ''/channels/1'' \<lparr>http_method = None, body = None\<rparr> 0,
            FetchDone 40 (Inr unknown_channel), TimerFired 1040,
            FetchDone 1080 (Inr unknown_channel), TimerFired 3080])
        (FetchDone 3120 (Inr missing_access))))"
proof -
  let ?s = "rest_run rest_constructor
              [Request 0 ''/channels/1'' \<lparr>http_method = None, body = None\<rparr> 0,
               FetchDone 40 (Inr unknown_channel), TimerFired 1040,
               FetchDone 1080 (Inr unknown_channel), TimerFired 3080]"
  have c: "control ?s = Fetching get_channel 2"
    and t: "trace ?s = [Execute get_channel, Fetch get_channel 0, FetchSettled, Sleep (Some 1000),
                        Fetch get_channel 1, FetchSettled, Sleep (Some 2000), Fetch get_channel 2]"
    by (simp_all add: rest_defs plain_response_def get_channel_def unknown_channel_def)
  have b: "status unknown_channel \<noteq> 429 \<and> \<not> ok unknown_channel
           \<and> json_body unknown_channel \<noteq> Some JNull"
    "spec_body_message unknown_channel = Text ''Unknown Channel''"
    "status unknown_channel = 404" "endpoint get_channel = ''/channels/1''"
    by (simp_all add: plain_response_def get_channel_def unknown_channel_def ok_def
                      spec_body_message_def)
  have m: "status missing_access \<noteq> 429 \<and> \<not> ok missing_access
           \<and> json_body missing_access \<noteq> Some JNull"
    "spec_body_message missing_access = Text []"
    "status missing_access = 403"
    by (simp_all add: plain_response_def missing_access_def ok_def spec_body_message_def)
  from api_error_retried [of ?s get_channel 2 unknown_channel 3120]
       api_error_retried [of ?s get_channel 2 missing_access 3120] c t b m
  show ?thesis by (simp del: rest_step.simps)
qed

end
